theory Spec2Isabelle
  imports Main
begin

section \<open>JavaScript containers\<close>

text \<open>
  A JavaScript \<open>Map\<close> keeps one entry per key, in the order in which the keys were
  first inserted; \<open>set\<close> on a key that is present replaces the value in place.
  It is modelled as an association list. A JavaScript \<open>Set\<close> of strings is a list
  without repetitions, in insertion order.
\<close>

type_synonym ('k, 'v) js_map = "('k \<times> 'v) list"

definition map_get :: "('k, 'v) js_map \<Rightarrow> 'k \<Rightarrow> 'v option" where
  "map_get m k = map_of m k"

fun map_set :: "'k \<Rightarrow> 'v \<Rightarrow> ('k, 'v) js_map \<Rightarrow> ('k, 'v) js_map" where
  "map_set k v [] = [(k, v)]"
| "map_set k v ((k', v') # m) =
     (if k' = k then (k, v) # m else (k', v') # map_set k v m)"

definition new_Map :: "('k \<times> 'v) list \<Rightarrow> ('k, 'v) js_map" where
  "new_Map entries = fold (\<lambda>(k, v) m. map_set k v m) entries []"

definition map_keys :: "('k, 'v) js_map \<Rightarrow> 'k list" where
  "map_keys m = map fst m"

definition map_values :: "('k, 'v) js_map \<Rightarrow> 'v list" where
  "map_values m = map snd m"

definition set_add :: "'a \<Rightarrow> 'a list \<Rightarrow> 'a list" where
  "set_add x s = (if x \<in> set s then s else s @ [x])"

section \<open>Data model\<close>

text \<open>
  \<open>ShadcnItemType\<close> is the union of the registry item types with
  \<open>"registry:shadcn"\<close> and \<open>"external"\<close>. The six values the classifier produces
  are constructors of their own; \<open>Registry_other\<close> stands for every other member of
  the registry's item type union.
\<close>

datatype ShadcnItemType =
    Registry_shadcn
  | Registry_component
  | Registry_hook
  | Registry_lib
  | External
  | Registry_internal
  | Registry_other string

record ShadcnItemMeta =
  meta_name :: string
  meta_type :: ShadcnItemType

record ShadcnItem =
  item_meta :: ShadcnItemMeta
  item_modules :: "string list"
  item_code :: "string option"

record RegistryItemFile =
  file_type :: string
  file_path :: string
  file_target :: string
  file_content :: "string option"

record RegistryItem =
  ri_name :: string
  ri_type :: ShadcnItemType
  ri_files :: "RegistryItemFile list"
  ri_dependencies :: "string list"
  ri_registryDependencies :: "string list"

section \<open>RegistryStore\<close>

text \<open>
  \<open>class RegistryImpl\<close>: a private \<open>Map\<close> from catalog name to item, with
  \<open>items\<close> (the values, in the map's order), \<open>getItem\<close> (\<open>get(name) || null\<close>,
  \<open>None\<close> for \<open>null\<close>) and \<open>addItem\<close> (\<open>set(item.name, item)\<close>).
\<close>

record RegistryImpl =
  reg_name :: string
  reg_homepage :: string
  itemsMap :: "(string, RegistryItem) js_map"

definition new_RegistryImpl :: "string \<Rightarrow> string \<Rightarrow> RegistryImpl" where
  "new_RegistryImpl n h = \<lparr>reg_name = n, reg_homepage = h, itemsMap = []\<rparr>"

definition items :: "RegistryImpl \<Rightarrow> RegistryItem list" where
  "items r = map_values (itemsMap r)"


definition addItem :: "RegistryItem \<Rightarrow> RegistryImpl \<Rightarrow> RegistryImpl" where
  "addItem i r = r\<lparr>itemsMap := map_set (ri_name i) i (itemsMap r)\<rparr>"


text \<open>The first occurrence of every element, in order.\<close>

fun first_occurrences :: "'a list \<Rightarrow> 'a list" where
  "first_occurrences [] = []"
| "first_occurrences (x # xs) = x # filter (\<lambda>y. y \<noteq> x) (first_occurrences xs)"

section \<open>Errors\<close>

text \<open>
  Every \<open>throw\<close> of the source is a value: \<open>Unable_to_find_info\<close> and
  \<open>Unable_to_resolve\<close> carry the identity printed in the message,
  \<open>Missing_item\<close> is the \<open>throw new Error()\<close> of the closure builder, and
  \<open>Invalid_file_url\<close> is the \<open>TypeError\<close> of \<open>new URL\<close> or \<open>fileURLToPath\<close>.
  A computation is \<open>Inl e\<close> when it throws \<open>e\<close> and \<open>Inr v\<close> when it returns \<open>v\<close>.
\<close>

datatype error =
    Unable_to_find_info string
  | Unable_to_resolve string
  | Missing_item
  | Invalid_file_url string

section \<open>Library functions\<close>

subsection \<open>\<open>node:path\<close> (POSIX), on absolute paths\<close>

text \<open>
  The plug-in hands \<open>node:path\<close> the project root (which the build tool has resolved
  to an absolute path) and the result of \<open>fileURLToPath\<close> (always absolute), so
  \<open>resolve\<close> never consults the working directory. The model follows the library's
  algorithms segment by segment.
\<close>

fun split_on :: "char \<Rightarrow> string \<Rightarrow> string list" where
  "split_on c [] = [[]]"
| "split_on c (x # xs) =
     (if x = c then [] # split_on c xs
      else case split_on c xs of
             [] \<Rightarrow> [[x]]
           | s # ss \<Rightarrow> (x # s) # ss)"

definition split_path :: "string \<Rightarrow> string list" where
  "split_path p = split_on (CHR ''/'') p"

fun join_path :: "string list \<Rightarrow> string" where
  "join_path [] = []"
| "join_path [s] = s"
| "join_path (s # t # ss) = s @ ''/'' @ join_path (t # ss)"

text \<open>
  \<open>normalizeString\<close>: empty segments and \<open>.\<close> are dropped, \<open>..\<close> removes the
  segment before it (or is kept, above the root of a relative path). The segments
  kept so far are held in reverse.
\<close>

fun normalizeString :: "bool \<Rightarrow> string list \<Rightarrow> string list \<Rightarrow> string list" where
  "normalizeString allowAboveRoot res [] = rev res"
| "normalizeString allowAboveRoot res (s # ss) =
     (if s = [] \<or> s = ''.'' then normalizeString allowAboveRoot res ss
      else if s = ''..'' then
        (if res \<noteq> [] \<and> hd res \<noteq> ''..'' then normalizeString allowAboveRoot (tl res) ss
         else if allowAboveRoot then normalizeString allowAboveRoot (''..'' # res) ss
         else normalizeString allowAboveRoot res ss)
      else normalizeString allowAboveRoot (s # res) ss)"

definition isAbsolute :: "string \<Rightarrow> bool" where
  "isAbsolute p = (p \<noteq> [] \<and> hd p = CHR ''/'')"

definition normalize :: "string \<Rightarrow> string" where
  "normalize p =
     (if p = [] then ''.''
      else let trailingSeparator = (last p = CHR ''/'');
               q = join_path (normalizeString (\<not> isAbsolute p) [] (split_path p))
           in if q = [] then
                (if isAbsolute p then ''/'' else if trailingSeparator then ''./'' else ''.'')
              else (if isAbsolute p then ''/'' else [])
                   @ q @ (if trailingSeparator then ''/'' else []))"

definition joinPath :: "string list \<Rightarrow> string" where
  "joinPath paths =
     (let joined = join_path (filter (\<lambda>p. p \<noteq> []) paths)
      in if joined = [] then ''.'' else normalize joined)"

text \<open>\<open>resolve\<close> of one absolute path, as its list of segments.\<close>

definition resolve_segments :: "string \<Rightarrow> string list" where
  "resolve_segments p = normalizeString False [] (split_path p)"

fun drop_common :: "string list \<Rightarrow> string list \<Rightarrow> string list \<times> string list" where
  "drop_common (x # xs) (y # ys) = (if x = y then drop_common xs ys else (x # xs, y # ys))"
| "drop_common xs ys = (xs, ys)"

definition relativePath :: "string \<Rightarrow> string \<Rightarrow> string" where
  "relativePath from to =
     (case drop_common (resolve_segments from) (resolve_segments to) of
        (up, down) \<Rightarrow> join_path (replicate (length up) ''..'' @ down))"

record ParsedPath =
  parsed_dir :: string
  parsed_base :: string
  parsed_ext :: string
  parsed_name :: string

definition strip_trailing :: "string \<Rightarrow> string" where
  "strip_trailing p = rev (dropWhile (\<lambda>c. c = CHR ''/'') (rev p))"

definition last_segment :: "string \<Rightarrow> string" where
  "last_segment p = rev (takeWhile (\<lambda>c. c \<noteq> CHR ''/'') (rev p))"

definition parse_ext :: "string \<Rightarrow> string" where
  "parse_ext b =
     (if CHR ''.'' \<notin> set b \<or> b = ''..'' then []
      else let e = CHR ''.'' # rev (takeWhile (\<lambda>c. c \<noteq> CHR ''.'') (rev b))
           in if length e = length b then [] else e)"

definition parsePath :: "string \<Rightarrow> ParsedPath" where
  "parsePath p =
     (let q = strip_trailing p;
          b = last_segment q;
          d = take (length q - length b - 1) q;
          e = parse_ext b
      in \<lparr>parsed_dir = (if d = [] \<and> isAbsolute p then ''/'' else d),
          parsed_base = b, parsed_ext = e,
          parsed_name = take (length b - length e) b\<rparr>)"

subsection \<open>Strings\<close>

text \<open>\<open>s.replace("/", "")\<close> removes the first \<open>/\<close> only.\<close>

fun replace_first_slash :: "string \<Rightarrow> string" where
  "replace_first_slash [] = []"
| "replace_first_slash (c # cs) = (if c = CHR ''/'' then cs else c # replace_first_slash cs)"

definition startsWith_NUL :: "string \<Rightarrow> bool" where
  "startsWith_NUL i = (i \<noteq> [] \<and> hd i = CHR 0x00)"

definition includes_query :: "string \<Rightarrow> bool" where
  "includes_query i = (CHR ''?'' \<in> set i)"

subsection \<open>Libraries taken as parameters\<close>

text \<open>
  \<open>kebabCase\<close> of the package \<open>change-case\<close> and the composition
  \<open>fileURLToPath(new URL(id, "file://"))\<close> of \<open>node:url\<close> are not part of the
  plug-in; every function below takes them in a record. \<open>fileURLToPath_URL\<close> is
  \<open>None\<close> where the library throws (an identity that parses as a URL of another
  scheme, for example).
\<close>

record lib =
  kebabCase :: "string \<Rightarrow> string"
  fileURLToPath_URL :: "string \<Rightarrow> string option"

text \<open>
  An instance for evaluation: on an absolute path that needs no escaping the URL
  round trip returns the path, and a name that is already in kebab-case is its own
  kebab-case.
\<close>

definition plain_lib :: lib where
  "plain_lib = \<lparr>kebabCase = (\<lambda>s. s), fileURLToPath_URL = (\<lambda>i. Some i)\<rparr>"

subsection \<open>\<open>createFilter\<close>\<close>

text \<open>
  The classifier's four filters are closures that \<open>createFilter\<close> builds from glob
  patterns; the classifier takes them as predicates.
\<close>

record filters =
  isShadcnComponent :: "string \<Rightarrow> bool"
  isComponent :: "string \<Rightarrow> bool"
  isComposable :: "string \<Rightarrow> bool"
  isUtil :: "string \<Rightarrow> bool"

text \<open>
  A model of the globs the plug-in writes, for evaluation: \<open>Star\<close> is \<open>*\<close> inside a
  segment (any characters but \<open>/\<close>), \<open>Plus\<close> is \<open>*\<close> as a whole segment (at least
  one character), \<open>Globstar\<close> is \<open>**\<close> and \<open>Alt\<close> is a brace list.
  \<open>createFilter\<close> resolves a relative pattern against the working directory and
  rejects every identity that contains the character NUL.
\<close>

datatype glob_token = Lit string | Star | Plus | Globstar | Alt "string list"

function glob_match :: "glob_token list \<Rightarrow> string \<Rightarrow> bool" where
  "glob_match [] s = (s = [])"
| "glob_match (Lit l # ts) s = (take (length l) s = l \<and> glob_match ts (drop (length l) s))"
| "glob_match (Alt ls # ts) s =
     (\<exists>l \<in> set ls. take (length l) s = l \<and> glob_match ts (drop (length l) s))"
| "glob_match (Star # ts) [] = glob_match ts []"
| "glob_match (Star # ts) (c # s) =
     (glob_match ts (c # s) \<or> (c \<noteq> CHR ''/'' \<and> glob_match (Star # ts) s))"
| "glob_match (Plus # ts) [] = False"
| "glob_match (Plus # ts) (c # s) = (c \<noteq> CHR ''/'' \<and> glob_match (Star # ts) s)"
| "glob_match (Globstar # ts) [] = glob_match ts []"
| "glob_match (Globstar # ts) (c # s) = (glob_match ts (c # s) \<or> glob_match (Globstar # ts) s)"
  by pat_completeness auto
termination
  by (relation "measures [\<lambda>(ts, s). length s, \<lambda>(ts, s). length ts]") auto

definition createFilter :: "string \<Rightarrow> glob_token list list \<Rightarrow> string \<Rightarrow> bool" where
  "createFilter cwd patterns i =
     (CHR 0x00 \<notin> set i \<and> (\<exists>p \<in> set patterns. glob_match (Lit (cwd @ ''/'') # p) i))"

definition plugin_filters :: "string \<Rightarrow> filters" where
  "plugin_filters cwd =
     \<lparr>isShadcnComponent = createFilter cwd [[Lit ''src/components/ui/'', Globstar]],
      isComponent = createFilter cwd
        [[Lit ''src/components/'', Plus, Lit ''/index.'', Alt [''js'', ''ts'']],
         [Lit ''src/components/'', Star, Lit ''.'', Alt [''vue'', ''jsx'', ''tsx'']]],
      isComposable = createFilter cwd
        [[Lit ''src/composables/'', Star, Lit ''.'', Alt [''js'', ''ts'']],
         [Lit ''src/composables/'', Plus, Lit ''/index.'', Alt [''js'', ''ts'']]],
      isUtil = createFilter cwd [[Lit ''src/utils/'', Plus]]\<rparr>"

section \<open>Classifier\<close>

definition srcDir :: string where
  "srcDir = ''src''"

definition uiComponentsDir :: string where
  "uiComponentsDir = joinPath [srcDir, ''components/ui'']"

definition componentsDir :: string where
  "componentsDir = joinPath [srcDir, ''components'']"

definition composablesDir :: string where
  "composablesDir = joinPath [srcDir, ''composables'']"

text \<open>
  \<open>getRegistryItemPath\<close>, \<open>getLocalFilePath\<close> and \<open>getRegistryItemName\<close>. In the
  last, \<open>dir.replace("/", "") || name\<close> takes the base name when the directory part is
  empty.
\<close>

definition getRegistryItemPath :: "lib \<Rightarrow> string \<Rightarrow> error + string" where
  "getRegistryItemPath L i =
     (case fileURLToPath_URL L i of None \<Rightarrow> Inl (Invalid_file_url i) | Some p \<Rightarrow> Inr p)"

definition getLocalFilePath :: "lib \<Rightarrow> string \<Rightarrow> string \<Rightarrow> error + string" where
  "getLocalFilePath L i configRootDir =
     (case getRegistryItemPath L i of
        Inl e \<Rightarrow> Inl e
      | Inr path \<Rightarrow> Inr (relativePath configRootDir path))"

definition getRegistryItemName :: "lib \<Rightarrow> string \<Rightarrow> string \<Rightarrow> string \<Rightarrow> error + string" where
  "getRegistryItemName L i configRootDir registryItemType =
     (case getRegistryItemPath L i of
        Inl e \<Rightarrow> Inl e
      | Inr itemPath \<Rightarrow>
          (let rootDir = joinPath [configRootDir, registryItemType];
               parsed = parsePath (relativePath rootDir itemPath);
               d = replace_first_slash (parsed_dir parsed)
           in Inr (kebabCase L (if d \<noteq> [] then d else parsed_name parsed))))"

text \<open>
  The two fields of the host's \<open>ResolvedId\<close> that the classifier reads;
  \<open>external\<close> holds when the host's field is the boolean \<open>true\<close> (the source tests
  \<open>true === external\<close>).
\<close>

record ResolvedId =
  resolved_id :: string
  external :: bool

definition named :: "ShadcnItemType \<Rightarrow> error + string \<Rightarrow> error + ShadcnItemMeta" where
  "named t n = (case n of Inl e \<Rightarrow> Inl e | Inr nm \<Rightarrow> Inr \<lparr>meta_name = nm, meta_type = t\<rparr>)"

definition getShadcnItemMeta ::
  "lib \<Rightarrow> filters \<Rightarrow> string \<Rightarrow> ResolvedId \<Rightarrow> error + ShadcnItemMeta" where
  "getShadcnItemMeta L F configRootDir resolvedId =
     (let moduleId = resolved_id resolvedId in
      if isShadcnComponent F moduleId then
        named Registry_shadcn (getRegistryItemName L moduleId configRootDir uiComponentsDir)
      else if isComponent F moduleId then
        named Registry_component (getRegistryItemName L moduleId configRootDir componentsDir)
      else if isComposable F moduleId then
        named Registry_hook (getRegistryItemName L moduleId configRootDir composablesDir)
      else if isUtil F moduleId then
        named Registry_lib (getRegistryItemName L moduleId configRootDir srcDir)
      else if external resolvedId then
        Inr \<lparr>meta_name = moduleId, meta_type = External\<rparr>
      else Inr \<lparr>meta_name = moduleId, meta_type = Registry_internal\<rparr>)"

section \<open>GraphWalker\<close>

text \<open>
  The host's module graph is the function \<open>this.getModuleInfo\<close>, \<open>None\<close> where it
  returns \<open>null\<close>. Of the module info the plug-in reads the identity, the two import
  lists and the source text it stored under its own name in \<open>meta\<close> (absent for a
  module it did not transform).
\<close>

record ModuleInfo =
  mi_id :: string
  importedIds :: "string list"
  dynamicallyImportedIds :: "string list"
  sourceCode :: "string option"

text \<open>
  \<open>moduleIdsToProcess.map(id => ...)\<close>: the first identity without module info
  throws, with the walk's root in the message.
\<close>

fun getModuleInfos ::
  "(string \<Rightarrow> ModuleInfo option) \<Rightarrow> string \<Rightarrow> string list \<Rightarrow> error + ModuleInfo list" where
  "getModuleInfos g moduleId [] = Inr []"
| "getModuleInfos g moduleId (i # ids) =
     (case g i of
        None \<Rightarrow> Inl (Unable_to_find_info moduleId)
      | Some moduleInfo \<Rightarrow>
          (case getModuleInfos g moduleId ids of
             Inl e \<Rightarrow> Inl e
           | Inr infos \<Rightarrow> Inr (moduleInfo # infos)))"

definition walker_importedIds :: "ModuleInfo \<Rightarrow> string list" where
  "walker_importedIds moduleInfo = importedIds moduleInfo @ dynamicallyImportedIds moduleInfo"

text \<open>
  The \<open>while\<close> loop of \<open>getHoistedImportedIds\<close>. It need not end on an arbitrary
  function \<open>g\<close>, so the result is \<open>None\<close> when it runs forever.
\<close>

partial_function (option) hoist_loop ::
  "(string \<Rightarrow> ModuleInfo option) \<Rightarrow> string \<Rightarrow> string list \<Rightarrow> string list
     \<Rightarrow> (error + string list) option" where
  "hoist_loop g moduleId hoistedImportedIds moduleIdsToProcess =
     (if moduleIdsToProcess = [] then Some (Inr hoistedImportedIds)
      else case getModuleInfos g moduleId moduleIdsToProcess of
             Inl e \<Rightarrow> Some (Inl e)
           | Inr infos \<Rightarrow>
               hoist_loop g moduleId
                 (fold set_add (concat (map walker_importedIds infos)) hoistedImportedIds)
                 (filter (\<lambda>i. i \<notin> set hoistedImportedIds)
                    (concat (map walker_importedIds infos))))"

definition getHoistedImportedIds ::
  "(string \<Rightarrow> ModuleInfo option) \<Rightarrow> string \<Rightarrow> (error + string list) option" where
  "getHoistedImportedIds g moduleId = hoist_loop g moduleId [] [moduleId]"

text \<open>The import graph: an edge for every static or dynamic import.\<close>

definition import_edges :: "(string \<Rightarrow> ModuleInfo option) \<Rightarrow> (string \<times> string) set" where
  "import_edges g =
     {(a, b). \<exists>m. g a = Some m \<and>
        (b \<in> set (importedIds m) \<or> b \<in> set (dynamicallyImportedIds m))}"

text \<open>Every imported identity has module info.\<close>

definition graph_closed :: "(string \<Rightarrow> ModuleInfo option) \<Rightarrow> bool" where
  "graph_closed g \<longleftrightarrow> (\<forall>a b. (a, b) \<in> import_edges g \<longrightarrow> g b \<noteq> None)"

section \<open>ClosureBuilder\<close>

text \<open>
  The three collections of \<open>createShadcnItemDependencies\<close>: two \<open>Set\<close>s and the
  \<open>Map\<close> of files, keyed by module identity.
\<close>

record closure =
  dependencies :: "string list"
  registryDependencies :: "string list"
  files :: "(string, RegistryItemFile) js_map"

definition empty_closure :: closure where
  "empty_closure = \<lparr>dependencies = [], registryDependencies = [], files = []\<rparr>"

text \<open>
  \<open>modules.forEach\<close> of the case \<open>"registry:internal"\<close>: every import is looked up
  in \<open>originalItems\<close> and set in \<open>nextItems\<close>; a missing one throws.
\<close>

fun enqueue_modules ::
  "(string, ShadcnItem) js_map \<Rightarrow> string list \<Rightarrow> (string, ShadcnItem) js_map
     \<Rightarrow> error + (string, ShadcnItem) js_map" where
  "enqueue_modules originalItems [] nextItems = Inr nextItems"
| "enqueue_modules originalItems (dependency # modules) nextItems =
     (case map_get originalItems dependency of
        None \<Rightarrow> Inl Missing_item
      | Some dependencyItem \<Rightarrow>
          enqueue_modules originalItems modules (map_set dependency dependencyItem nextItems))"

text \<open>The file entry of a module: \<open>content\<close> is \<open>originalItems.get(id)?.code\<close>.\<close>

definition registry_file :: "(string, ShadcnItem) js_map \<Rightarrow> string \<Rightarrow> string \<Rightarrow> RegistryItemFile" where
  "registry_file originalItems i path =
     \<lparr>file_type = ''registry:file'', file_path = path, file_target = path,
      file_content = (case map_get originalItems i of None \<Rightarrow> None | Some it \<Rightarrow> item_code it)\<rparr>"

text \<open>The \<open>default\<close> case: the file of the module, unless its identity contains \<open>?\<close>.\<close>

definition add_file ::
  "lib \<Rightarrow> (string, ShadcnItem) js_map \<Rightarrow> string \<Rightarrow> string \<Rightarrow> closure \<Rightarrow> error + closure" where
  "add_file L originalItems configRootDir i c =
     (if includes_query i then Inr c
      else case getLocalFilePath L i configRootDir of
             Inl e \<Rightarrow> Inl e
           | Inr path \<Rightarrow>
               Inr (c\<lparr>files := map_set i (registry_file originalItems i path) (files c)\<rparr>))"

text \<open>
  The body of the \<open>for\<close> loop for one entry of the frontier. The case
  \<open>"registry:internal"\<close> has no \<open>break\<close> and falls through to \<open>default\<close>.
\<close>

definition process_item ::
  "lib \<Rightarrow> (string, ShadcnItem) js_map \<Rightarrow> string \<Rightarrow> string \<times> ShadcnItem
     \<Rightarrow> closure \<times> (string, ShadcnItem) js_map
     \<Rightarrow> error + closure \<times> (string, ShadcnItem) js_map" where
  "process_item L originalItems configRootDir entry acc =
     (case (entry, acc) of ((i, item), (c, nextItems)) \<Rightarrow>
        if startsWith_NUL i then Inr (c, nextItems)
        else case meta_type (item_meta item) of
          External \<Rightarrow> Inr (c\<lparr>dependencies := set_add i (dependencies c)\<rparr>, nextItems)
        | Registry_shadcn \<Rightarrow>
            Inr (c\<lparr>registryDependencies :=
                     set_add (meta_name (item_meta item)) (registryDependencies c)\<rparr>, nextItems)
        | Registry_internal \<Rightarrow>
            (case enqueue_modules originalItems (item_modules item) nextItems of
               Inl e \<Rightarrow> Inl e
             | Inr nextItems' \<Rightarrow>
                 (case add_file L originalItems configRootDir i c of
                    Inl e \<Rightarrow> Inl e
                  | Inr c' \<Rightarrow> Inr (c', nextItems')))
        | _ \<Rightarrow>
            (case add_file L originalItems configRootDir i c of
               Inl e \<Rightarrow> Inl e
             | Inr c' \<Rightarrow> Inr (c', nextItems)))"

text \<open>The \<open>for\<close> loop over the entries of the frontier, in the map's order.\<close>

fun process_items ::
  "lib \<Rightarrow> (string, ShadcnItem) js_map \<Rightarrow> string \<Rightarrow> (string \<times> ShadcnItem) list
     \<Rightarrow> closure \<times> (string, ShadcnItem) js_map
     \<Rightarrow> error + closure \<times> (string, ShadcnItem) js_map" where
  "process_items L originalItems configRootDir [] acc = Inr acc"
| "process_items L originalItems configRootDir (entry # entries) acc =
     (case process_item L originalItems configRootDir entry acc of
        Inl e \<Rightarrow> Inl e
      | Inr acc' \<Rightarrow> process_items L originalItems configRootDir entries acc')"

text \<open>
  The \<open>while (true)\<close> loop. Nothing records the modules already walked, so the loop
  need not end: the result is \<open>None\<close> when it runs forever.
\<close>

partial_function (option) closure_loop ::
  "lib \<Rightarrow> (string, ShadcnItem) js_map \<Rightarrow> string \<Rightarrow> (string, ShadcnItem) js_map
     \<Rightarrow> closure \<Rightarrow> (error + closure) option" where
  "closure_loop L originalItems configRootDir currentItems c =
     (if currentItems = [] then Some (Inr c)
      else case process_items L originalItems configRootDir currentItems (c, []) of
             Inl e \<Rightarrow> Some (Inl e)
           | Inr (c', nextItems) \<Rightarrow> closure_loop L originalItems configRootDir nextItems c')"

text \<open>The first frontier: the entries of \<open>originalItems\<close> whose key is the target or one
  of its imports.\<close>

definition seed_keys :: "string \<Rightarrow> (string, ShadcnItem) js_map \<Rightarrow> string list" where
  "seed_keys i originalItems =
     i # (case map_get originalItems i of None \<Rightarrow> [] | Some it \<Rightarrow> item_modules it)"

definition seed_items :: "string \<Rightarrow> (string, ShadcnItem) js_map \<Rightarrow> (string, ShadcnItem) js_map" where
  "seed_items i originalItems =
     new_Map (filter (\<lambda>(k, v). k \<in> set (seed_keys i originalItems)) originalItems)"

text \<open>The collections when the loop is left.\<close>

definition closure_of ::
  "lib \<Rightarrow> string \<Rightarrow> (string, ShadcnItem) js_map \<Rightarrow> string \<Rightarrow> (error + closure) option" where
  "closure_of L i originalItems configRootDir =
     closure_loop L originalItems configRootDir (seed_items i originalItems) empty_closure"

record ShadcnItemDependencies =
  result_dependencies :: "string list"
  result_registryDependencies :: "string list"
  result_files :: "RegistryItemFile list"

definition closure_result :: "closure \<Rightarrow> ShadcnItemDependencies" where
  "closure_result c =
     \<lparr>result_dependencies = dependencies c,
      result_registryDependencies = registryDependencies c,
      result_files = map_values (files c)\<rparr>"

definition createShadcnItemDependencies ::
  "lib \<Rightarrow> string \<Rightarrow> (string, ShadcnItem) js_map \<Rightarrow> string
     \<Rightarrow> (error + ShadcnItemDependencies) option" where
  "createShadcnItemDependencies L i originalItems configRootDir =
     (case closure_of L i originalItems configRootDir of
        None \<Rightarrow> None
      | Some (Inl e) \<Rightarrow> Some (Inl e)
      | Some (Inr c) \<Rightarrow> Some (Inr (closure_result c)))"

section \<open>The analysis pass (\<open>buildEnd\<close>)\<close>

definition SHADCN_REGISTRY_VIRTUAL_MODULE_ID :: string where
  "SHADCN_REGISTRY_VIRTUAL_MODULE_ID = CHR 0x00 # ''virtual:shadcn-registry''"

text \<open>
  The plug-in context: \<open>this.getModuleInfo\<close> and \<open>this.resolve\<close>, both \<open>None\<close> for
  \<open>null\<close>.
\<close>

record plugin_context =
  getModuleInfo :: "string \<Rightarrow> ModuleInfo option"
  resolve :: "string \<Rightarrow> ResolvedId option"

text \<open>The record that \<open>buildEnd\<close> stores for a module.\<close>

definition shadcnItem_of :: "ShadcnItemMeta \<Rightarrow> ModuleInfo \<Rightarrow> ShadcnItem" where
  "shadcnItem_of shadcnItemMeta moduleInfo =
     \<lparr>item_meta = shadcnItemMeta,
      item_modules = dynamicallyImportedIds moduleInfo @ importedIds moduleInfo,
      item_code = sourceCode moduleInfo\<rparr>"

text \<open>The first loop of \<open>buildEnd\<close>, over the walker's identities.\<close>

fun collect_items ::
  "lib \<Rightarrow> filters \<Rightarrow> plugin_context \<Rightarrow> string \<Rightarrow> string list \<Rightarrow> (string, ShadcnItem) js_map
     \<Rightarrow> error + (string, ShadcnItem) js_map" where
  "collect_items L F ctx configRootDir [] shadcnItems = Inr shadcnItems"
| "collect_items L F ctx configRootDir (moduleId # ids) shadcnItems =
     (case resolve ctx moduleId of
        None \<Rightarrow> Inl (Unable_to_resolve moduleId)
      | Some resolvedId \<Rightarrow>
          (case getShadcnItemMeta L F configRootDir resolvedId of
             Inl e \<Rightarrow> Inl e
           | Inr shadcnItemMeta \<Rightarrow>
               (case getModuleInfo ctx moduleId of
                  None \<Rightarrow> Inl (Unable_to_find_info moduleId)
                | Some moduleInfo \<Rightarrow>
                    collect_items L F ctx configRootDir ids
                      (map_set (mi_id moduleInfo) (shadcnItem_of shadcnItemMeta moduleInfo)
                         shadcnItems))))"

text \<open>The second loop: one registry item for every component, hook and lib.\<close>

fun register_items ::
  "lib \<Rightarrow> (string, ShadcnItem) js_map \<Rightarrow> string \<Rightarrow> (string \<times> ShadcnItem) list
     \<Rightarrow> RegistryImpl \<Rightarrow> (error + RegistryImpl) option" where
  "register_items L shadcnItems configRootDir [] registry = Some (Inr registry)"
| "register_items L shadcnItems configRootDir ((i, shadcnItem) # entries) registry =
     (if meta_type (item_meta shadcnItem) = External
         \<or> meta_type (item_meta shadcnItem) = Registry_shadcn
         \<or> meta_type (item_meta shadcnItem) = Registry_internal
      then register_items L shadcnItems configRootDir entries registry
      else case createShadcnItemDependencies L i shadcnItems configRootDir of
             None \<Rightarrow> None
           | Some (Inl e) \<Rightarrow> Some (Inl e)
           | Some (Inr d) \<Rightarrow>
               register_items L shadcnItems configRootDir entries
                 (addItem \<lparr>ri_name = meta_name (item_meta shadcnItem),
                           ri_type = meta_type (item_meta shadcnItem),
                           ri_files = result_files d,
                           ri_dependencies = result_dependencies d,
                           ri_registryDependencies = result_registryDependencies d\<rparr>
                    registry))"

definition buildEnd :: "lib \<Rightarrow> filters \<Rightarrow> plugin_context \<Rightarrow> string \<Rightarrow> (error + RegistryImpl) option" where
  "buildEnd L F ctx configRootDir =
     (case getHoistedImportedIds (getModuleInfo ctx) SHADCN_REGISTRY_VIRTUAL_MODULE_ID of
        None \<Rightarrow> None
      | Some (Inl e) \<Rightarrow> Some (Inl e)
      | Some (Inr hoistedImportedIds) \<Rightarrow>
          (case collect_items L F ctx configRootDir hoistedImportedIds [] of
             Inl e \<Rightarrow> Some (Inl e)
           | Inr shadcnItems \<Rightarrow>
               register_items L shadcnItems configRootDir shadcnItems
                 (new_RegistryImpl ''some name'' ''some homepage'')))"

text \<open>The two loops are evaluated by their unfolding equations.\<close>

declare hoist_loop.simps [code]

declare closure_loop.simps [code]

section \<open>Notions used in the statements\<close>

text \<open>
  The states of the \<open>while\<close> loop of \<open>createShadcnItemDependencies\<close> for a target:
  the frontier \<open>items\<close> and the collections at the head of an iteration.
\<close>

inductive walks ::
  "lib \<Rightarrow> string \<Rightarrow> (string, ShadcnItem) js_map \<Rightarrow> string
     \<Rightarrow> (string, ShadcnItem) js_map \<Rightarrow> closure \<Rightarrow> bool"
  for L i originalItems configRootDir where
    seed: "walks L i originalItems configRootDir (seed_items i originalItems) empty_closure"
  | step: "walks L i originalItems configRootDir currentItems c \<Longrightarrow> currentItems \<noteq> [] \<Longrightarrow>
           process_items L originalItems configRootDir currentItems (c, []) = Inr (c', nextItems) \<Longrightarrow>
           walks L i originalItems configRootDir nextItems c'"

text \<open>An entry of a frontier for which the loop body reaches \<open>files.set\<close>.\<close>

definition makes_file :: "string \<times> ShadcnItem \<Rightarrow> bool" where
  "makes_file entry =
     (case entry of (i, it) \<Rightarrow>
        \<not> startsWith_NUL i \<and> \<not> includes_query i
        \<and> meta_type (item_meta it) \<noteq> External \<and> meta_type (item_meta it) \<noteq> Registry_shadcn)"

text \<open>An entry whose imports the loop body enqueues.\<close>

definition expands :: "string \<times> ShadcnItem \<Rightarrow> bool" where
  "expands entry =
     (case entry of (i, it) \<Rightarrow>
        \<not> startsWith_NUL i \<and> meta_type (item_meta it) = Registry_internal)"


text \<open>Every import of an expanded entry of the record map has a record.\<close>

definition records_closed :: "(string, ShadcnItem) js_map \<Rightarrow> bool" where
  "records_closed originalItems \<longleftrightarrow>
     (\<forall>(i, it) \<in> set originalItems.
        expands (i, it) \<longrightarrow> (\<forall>d \<in> set (item_modules it). map_get originalItems d \<noteq> None))"

text \<open>
  \<open>fileURLToPath\<close> does not throw on an identity of the record map that becomes a
  file.
\<close>

definition paths_defined :: "lib \<Rightarrow> (string, ShadcnItem) js_map \<Rightarrow> bool" where
  "paths_defined L originalItems \<longleftrightarrow>
     (\<forall>(i, it) \<in> set originalItems. makes_file (i, it) \<longrightarrow> fileURLToPath_URL L i \<noteq> None)"


text \<open>The paths of the files of every item of a registry, in order.\<close>

definition file_paths :: "RegistryImpl \<Rightarrow> (string \<times> string list) list" where
  "file_paths r = map (\<lambda>i. (ri_name i, map file_path (ri_files i))) (items r)"

definition buildEnd_file_paths ::
  "lib \<Rightarrow> filters \<Rightarrow> plugin_context \<Rightarrow> string \<Rightarrow> (string \<times> string list) list option" where
  "buildEnd_file_paths L F ctx configRootDir =
     (case buildEnd L F ctx configRootDir of
        Some (Inr registry) \<Rightarrow> Some (file_paths registry)
      | _ \<Rightarrow> None)"

section \<open>Example inputs\<close>

definition module :: "string \<Rightarrow> string list \<Rightarrow> string list \<Rightarrow> string \<times> ModuleInfo" where
  "module i static dynamic =
     (i, \<lparr>mi_id = i, importedIds = static, dynamicallyImportedIds = dynamic,
          sourceCode = Some (''// '' @ i)\<rparr>)"

definition shadcnItem :: "string \<Rightarrow> ShadcnItemType \<Rightarrow> string list \<Rightarrow> ShadcnItem" where
  "shadcnItem n t modules =
     \<lparr>item_meta = \<lparr>meta_name = n, meta_type = t\<rparr>, item_modules = modules,
      item_code = Some ''export {}''\<rparr>"

text \<open>A graph with the cycle \<open>/a.ts \<rightarrow> /b.ts \<rightarrow> /a.ts\<close>.\<close>

definition cycle_graph :: "string \<Rightarrow> ModuleInfo option" where
  "cycle_graph =
     map_of [module ''/a.ts'' [''/b.ts''] [], module ''/b.ts'' [''/a.ts''] [''/c.ts''],
             module ''/c.ts'' [] []]"

text \<open>
  The records of a card component that imports a package, a primitive, an internal
  helper (which imports a second helper), a virtual module of the build tool and a
  sub-block of a single-file component.
\<close>

definition card_id :: string where
  "card_id = ''/proj/src/components/card/index.ts''"

definition button_id :: string where
  "button_id = ''/proj/src/components/ui/button/index.ts''"

definition format_id :: string where
  "format_id = ''/proj/src/components/card/format.ts''"

definition units_id :: string where
  "units_id = ''/proj/src/components/card/units.ts''"

definition helper_id :: string where
  "helper_id = CHR 0x00 # ''plugin-vue:export-helper''"

definition body_id :: string where
  "body_id = ''/proj/src/components/card/body.vue?vue&type=script&lang.ts''"

definition card_item :: ShadcnItem where
  "card_item =
     shadcnItem ''card'' Registry_component [''clsx'', button_id, format_id, helper_id, body_id]"

definition format_item :: ShadcnItem where
  "format_item = shadcnItem format_id Registry_internal [units_id]"

definition units_item :: ShadcnItem where
  "units_item = shadcnItem units_id Registry_internal []"

definition card_items :: "(string, ShadcnItem) js_map" where
  "card_items =
     [(card_id, card_item),
      (''clsx'', shadcnItem ''clsx'' External []),
      (button_id, shadcnItem ''button'' Registry_shadcn []),
      (format_id, format_item),
      (helper_id, shadcnItem helper_id Registry_internal []),
      (body_id, shadcnItem body_id Registry_internal []),
      (units_id, units_item)]"

text \<open>The collections of the card's closure: when the loop is left, after the first
  frontier, and after the helper alone.\<close>

definition card_closure :: closure where
  "card_closure =
     \<lparr>dependencies = [''clsx''], registryDependencies = [''button''],
      files = [(card_id, registry_file card_items card_id ''src/components/card/index.ts''),
               (format_id, registry_file card_items format_id ''src/components/card/format.ts''),
               (units_id, registry_file card_items units_id ''src/components/card/units.ts'')]\<rparr>"

definition card_first_closure :: closure where
  "card_first_closure =
     \<lparr>dependencies = [''clsx''], registryDependencies = [''button''],
      files = [(card_id, registry_file card_items card_id ''src/components/card/index.ts''),
               (format_id, registry_file card_items format_id ''src/components/card/format.ts'')]\<rparr>"

definition format_closure :: closure where
  "format_closure =
     \<lparr>dependencies = [], registryDependencies = [],
      files = [(format_id, registry_file card_items format_id ''src/components/card/format.ts'')]\<rparr>"

text \<open>
  A hook that imports the card component and a primitive; \<open>widget_closure\<close> is its
  closure, \<open>card_alone\<close> the collections after the card's entry alone.
\<close>

definition widget_id :: string where
  "widget_id = ''/proj/src/composables/use-widget.ts''"

definition widget_items :: "(string, ShadcnItem) js_map" where
  "widget_items =
     (widget_id, shadcnItem ''use-widget'' Registry_hook [card_id, button_id]) # card_items"

definition widget_result :: ShadcnItemDependencies where
  "widget_result =
     \<lparr>result_dependencies = [], result_registryDependencies = [''button''],
      result_files =
        [registry_file widget_items widget_id ''src/composables/use-widget.ts'',
         registry_file widget_items card_id ''src/components/card/index.ts'']\<rparr>"

definition card_alone :: closure where
  "card_alone =
     \<lparr>dependencies = [], registryDependencies = [],
      files = [(card_id, registry_file widget_items card_id ''src/components/card/index.ts'')]\<rparr>"

text \<open>
  A hook that imports a sub-block of a single-file component; the sub-block's
  identity carries a query and matches the components filter.
\<close>

definition hook_id :: string where
  "hook_id = ''/proj/src/composables/use-card.ts''"

definition block_id :: string where
  "block_id = ''/proj/src/components/card.vue?vue&type=script&setup=true&lang.tsx''"

definition block_item :: ShadcnItem where
  "block_item = shadcnItem ''card'' Registry_component []"

definition hook_items :: "(string, ShadcnItem) js_map" where
  "hook_items =
     [(hook_id, shadcnItem ''use-card'' Registry_hook [block_id]), (block_id, block_item)]"

text \<open>
  A component whose helper imports a module that has no record: the helper is a
  virtual module of the build tool in \<open>stale_virtual_items\<close> and an ordinary source
  file in \<open>stale_items\<close>.
\<close>

definition badge_id :: string where
  "badge_id = ''/proj/src/components/badge.vue''"

definition gone_id :: string where
  "gone_id = ''/proj/src/gone.ts''"

definition stale_virtual_helper :: ShadcnItem where
  "stale_virtual_helper = shadcnItem helper_id Registry_internal [gone_id]"

definition stale_virtual_items :: "(string, ShadcnItem) js_map" where
  "stale_virtual_items =
     [(badge_id, shadcnItem ''badge'' Registry_component [helper_id]),
      (helper_id, stale_virtual_helper)]"

definition stale_helper :: ShadcnItem where
  "stale_helper = shadcnItem format_id Registry_internal [gone_id]"

definition stale_items :: "(string, ShadcnItem) js_map" where
  "stale_items =
     [(badge_id, shadcnItem ''badge'' Registry_component [format_id]),
      (format_id, stale_helper)]"


text \<open>
  A module graph in which the card component and its helper each import one module
  statically and another dynamically.
\<close>

definition static_id :: string where
  "static_id = ''/proj/src/static.ts''"

definition dynamic_id :: string where
  "dynamic_id = ''/proj/src/dynamic.ts''"

definition inner_static_id :: string where
  "inner_static_id = ''/proj/src/inner-static.ts''"

definition inner_dynamic_id :: string where
  "inner_dynamic_id = ''/proj/src/inner-dynamic.ts''"

definition order_info :: ModuleInfo where
  "order_info = snd (module format_id [inner_static_id] [inner_dynamic_id])"

definition order_context :: plugin_context where
  "order_context =
     \<lparr>getModuleInfo =
        map_of [module SHADCN_REGISTRY_VIRTUAL_MODULE_ID [card_id] [],
                module card_id [format_id, static_id] [dynamic_id],
                (format_id, order_info),
                module static_id [] [],
                module dynamic_id [] [],
                module inner_static_id [] [],
                module inner_dynamic_id [] []],
      resolve = (\<lambda>i. Some \<lparr>resolved_id = i, external = False\<rparr>)\<rparr>"





section \<open>Facts about the containers\<close>


lemma map_keys_map_set:
  "map_keys (map_set k v m) = (if k \<in> set (map_keys m) then map_keys m else map_keys m @ [k])"
  by (induction m) (auto simp: map_keys_def rev_image_eqI)

lemma set_map_keys_map_set: "set (map_keys (map_set k v m)) = insert k (set (map_keys m))"
  by (auto simp: map_keys_map_set)

lemma distinct_map_keys_map_set:
  "distinct (map_keys m) \<Longrightarrow> distinct (map_keys (map_set k v m))"
  by (simp add: map_keys_map_set)





section \<open>RegistryStore: last write wins\<close>












section \<open>GraphWalker: termination and reachability\<close>

lemma set_fold_set_add: "set (fold set_add xs s) = set s \<union> set xs"
  by (induction xs arbitrary: s) (auto simp: set_add_def)

lemma distinct_fold_set_add: "distinct s \<Longrightarrow> distinct (fold set_add xs s)"
  by (induction xs arbitrary: s) (auto simp: set_add_def)

lemma getModuleInfos_present:
  "set ids \<subseteq> dom g \<Longrightarrow> getModuleInfos g r ids = Inr (map (\<lambda>i. the (g i)) ids)"
  by (induction ids) auto

lemma frontier_imports:
  assumes "set ids \<subseteq> dom g"
  shows "set (concat (map walker_importedIds (map (\<lambda>i. the (g i)) ids))) = import_edges g `` set ids"
proof -
  have "set (walker_importedIds (the (g i))) = import_edges g `` {i}" if "i \<in> set ids" for i
  proof -
    from that assms obtain m where "g i = Some m" by auto
    then show ?thesis by (auto simp: import_edges_def walker_importedIds_def)
  qed
  then have "(\<Union>i\<in>set ids. set (walker_importedIds (the (g i)))) = import_edges g `` set ids"
    by blast
  then show ?thesis by simp
qed

lemma closed_Image: "graph_closed g \<Longrightarrow> import_edges g `` A \<subseteq> dom g"
  by (auto simp: graph_closed_def)

lemma trancl_from_closed:
  assumes "E `` (insert r H) \<subseteq> H"
  shows "E\<^sup>+ `` {r} \<subseteq> H"
proof
  fix y assume "y \<in> E\<^sup>+ `` {r}"
  then have "(r, y) \<in> E\<^sup>+" by simp
  then show "y \<in> H"
    using assms by (induction rule: trancl_induct) auto
qed

lemma hoist_loop_total:
  assumes fin: "finite (dom g)" and closed: "graph_closed g"
  shows "distinct h \<Longrightarrow> set t \<subseteq> dom g \<Longrightarrow> set h \<subseteq> (import_edges g)\<^sup>+ `` {r}
     \<Longrightarrow> set t \<subseteq> (import_edges g)\<^sup>* `` {r}
     \<Longrightarrow> import_edges g `` ((insert r (set h)) - set t) \<subseteq> set h
     \<Longrightarrow> \<exists>hs. hoist_loop g m h t = Some (Inr hs) \<and> distinct hs
            \<and> set hs = (import_edges g)\<^sup>+ `` {r}"
proof (induction "2 * card (dom g - set h) + (if t = [] then 0 else 1)" arbitrary: h t
    rule: less_induct)
  case less
  let ?E = "import_edges g"
  show ?case
  proof (cases "t = []")
    case True
    with less.prems have "?E `` (insert r (set h)) \<subseteq> set h" by simp
    then have "?E\<^sup>+ `` {r} \<subseteq> set h" by (rule trancl_from_closed)
    with less.prems True show ?thesis
      by (subst hoist_loop.simps) auto
  next
    case False
    let ?imp = "concat (map walker_importedIds (map (\<lambda>i. the (g i)) t))"
    let ?h = "fold set_add ?imp h"
    let ?t = "filter (\<lambda>i. i \<notin> set h) ?imp"
    have imp: "set ?imp = ?E `` set t"
      using less.prems(2) by (rule frontier_imports)
    have imp_dom: "set ?imp \<subseteq> dom g"
      unfolding imp using closed by (rule closed_Image)
    have unfold: "hoist_loop g m h t = hoist_loop g m ?h ?t"
      using False less.prems(2) by (subst hoist_loop.simps) (simp add: getModuleInfos_present)
    have h': "set ?h = set h \<union> ?E `` set t"
      by (simp only: set_fold_set_add imp)
    have t': "set ?t = ?E `` set t - set h"
      using imp by auto
    have reach: "?E `` set t \<subseteq> ?E\<^sup>+ `` {r}"
      using less.prems(4) by (auto intro: rtrancl_into_trancl1)
    have i1: "distinct ?h" using less.prems(1) by (rule distinct_fold_set_add)
    have i2: "set ?t \<subseteq> dom g" using imp_dom by auto
    have i3: "set ?h \<subseteq> ?E\<^sup>+ `` {r}" using less.prems(3) reach unfolding h' by blast
    have i4: "set ?t \<subseteq> ?E\<^sup>* `` {r}" using reach unfolding t' by (auto intro: trancl_into_rtrancl)
    have i5: "?E `` ((insert r (set ?h)) - set ?t) \<subseteq> set ?h"
      using less.prems(5) unfolding h' t' by blast
    have fin': "finite (dom g - set h)" using fin by simp
    have "2 * card (dom g - set ?h) + (if ?t = [] then 0 else 1)
        < 2 * card (dom g - set h) + (if t = [] then 0 else 1)"
    proof (cases "?t = []")
      case True
      have "card (dom g - set ?h) \<le> card (dom g - set h)"
        using fin' unfolding h' by (intro card_mono) auto
      with True False show ?thesis by simp
    next
      case nonempty: False
      then have "hd ?t \<in> set ?t" by (rule hd_in_set)
      then obtain x where x: "x \<in> set ?t" ..
      then have "x \<in> dom g - set h" "x \<notin> dom g - set ?h"
        using i2 unfolding h' t' by auto
      then have "dom g - set ?h \<subset> dom g - set h"
        unfolding h' by blast
      then have "card (dom g - set ?h) < card (dom g - set h)"
        using fin' by (simp add: psubset_card_mono)
      with nonempty False show ?thesis by simp
    qed
    from less.hyps [OF this i1 i2 i3 i4 i5] show ?thesis
      unfolding unfold .
  qed
qed

text \<open>
  C4. On a finite import graph in which every imported identity has module info, and
  from a root that has module info, \<open>getHoistedImportedIds\<close> terminates without
  throwing, and the set it returns holds every identity once and is exactly the set
  of identities reachable from the root through one or more static or dynamic
  imports. Cycles are allowed: the root itself is returned exactly when it lies on
  one.
\<close>

theorem getHoistedImportedIds_reachable:
  assumes "finite (dom g)" and "graph_closed g" and "g moduleId \<noteq> None"
  shows "\<exists>hs. getHoistedImportedIds g moduleId = Some (Inr hs) \<and> distinct hs
            \<and> set hs = (import_edges g)\<^sup>+ `` {moduleId}"
  unfolding getHoistedImportedIds_def
  using assms by (intro hoist_loop_total) auto


theorem getHoistedImportedIds_reachable_witness:
  "finite (dom cycle_graph) \<and> graph_closed cycle_graph \<and> cycle_graph ''/a.ts'' \<noteq> None
   \<and> getHoistedImportedIds cycle_graph ''/a.ts'' = Some (Inr [''/b.ts'', ''/a.ts'', ''/c.ts''])
   \<and> (import_edges cycle_graph)\<^sup>+ `` {''/a.ts''} = {''/b.ts'', ''/a.ts'', ''/c.ts''}"
proof -
  have fin: "finite (dom cycle_graph)"
    by (simp add: cycle_graph_def)
  have closed: "graph_closed cycle_graph"
    by (auto simp: graph_closed_def import_edges_def cycle_graph_def module_def split: if_splits)
  have root: "cycle_graph ''/a.ts'' \<noteq> None"
    by (simp add: cycle_graph_def module_def)
  have run: "getHoistedImportedIds cycle_graph ''/a.ts'' = Some (Inr [''/b.ts'', ''/a.ts'', ''/c.ts''])"
    by (simp add: getHoistedImportedIds_def hoist_loop.simps cycle_graph_def module_def
        walker_importedIds_def set_add_def)
  from getHoistedImportedIds_reachable [OF fin closed root] run
  have "(import_edges cycle_graph)\<^sup>+ `` {''/a.ts''} = set [''/b.ts'', ''/a.ts'', ''/c.ts'']"
    by auto
  with fin closed root run show ?thesis by simp
qed

section \<open>ClosureBuilder: the loop body, a frontier, the loop\<close>

subsection \<open>Frontier entries\<close>

lemma set_map_set: "set (map_set k v m) \<subseteq> insert (k, v) (set m)"
  by (induction m) (auto split: if_splits)

lemma map_keys_map_set_add: "map_keys (map_set k v m) = set_add k (map_keys m)"
  by (simp add: map_keys_map_set set_add_def)

lemma fold_set_add_first_occurrences:
  "distinct s \<Longrightarrow> fold set_add xs s = s @ filter (\<lambda>x. x \<notin> set s) (first_occurrences xs)"
proof (induction xs arbitrary: s)
  case Nil
  show ?case by simp
next
  case (Cons x xs)
  show ?case
  proof (cases "x \<in> set s")
    case True
    then have "filter (\<lambda>y. y \<notin> set s) (filter (\<lambda>y. y \<noteq> x) (first_occurrences xs))
        = filter (\<lambda>y. y \<notin> set s) (first_occurrences xs)"
      by (auto intro: filter_cong)
    with True Cons show ?thesis by (simp add: set_add_def)
  next
    case False
    have "filter (\<lambda>y. y \<notin> set (s @ [x])) (first_occurrences xs)
        = filter (\<lambda>y. y \<notin> set s) (filter (\<lambda>y. y \<noteq> x) (first_occurrences xs))"
      by (auto intro: filter_cong)
    with False Cons.prems Cons.IH [of "s @ [x]"] show ?thesis by (simp add: set_add_def)
  qed
qed

lemma enqueue_modules_keys:
  "enqueue_modules originalItems ms nextItems = Inr nextItems' \<Longrightarrow>
     map_keys nextItems' = fold set_add ms (map_keys nextItems)"
  by (induction ms arbitrary: nextItems) (auto simp: map_keys_map_set_add split: option.splits)

lemma enqueue_modules_entries:
  "enqueue_modules originalItems ms nextItems = Inr nextItems' \<Longrightarrow>
     set nextItems \<subseteq> set originalItems \<Longrightarrow> set nextItems' \<subseteq> set originalItems"
proof (induction ms arbitrary: nextItems)
  case Nil
  then show ?case by simp
next
  case (Cons d ms)
  then obtain v where v: "map_get originalItems d = Some v"
    and rest: "enqueue_modules originalItems ms (map_set d v nextItems) = Inr nextItems'"
    by (auto split: option.splits)
  from v have "(d, v) \<in> set originalItems" by (simp add: map_get_def map_of_SomeD)
  with Cons.prems(2) set_map_set [of d v nextItems]
  have "set (map_set d v nextItems) \<subseteq> set originalItems" by auto
  with Cons.IH rest show ?case by blast
qed

lemma enqueue_modules_missing:
  "\<exists>d \<in> set ms. map_get originalItems d = None \<Longrightarrow>
     enqueue_modules originalItems ms nextItems = Inl Missing_item"
  by (induction ms arbitrary: nextItems) (auto split: option.splits)


lemma enqueue_modules_error:
  "enqueue_modules originalItems ms nextItems = Inl e \<Longrightarrow>
     e = Missing_item \<and> (\<exists>d \<in> set ms. map_get originalItems d = None)"
  by (induction ms arbitrary: nextItems) (auto split: option.splits)

subsection \<open>One entry\<close>

lemma add_file_cases:
  "add_file L originalItems configRootDir i c = Inr c' \<Longrightarrow>
     dependencies c' = dependencies c \<and> registryDependencies c' = registryDependencies c \<and>
     (if includes_query i then files c' = files c
      else \<exists>path. getLocalFilePath L i configRootDir = Inr path \<and>
             files c' = map_set i (registry_file originalItems i path) (files c))"
  by (auto simp: add_file_def split: if_splits sum.splits)

lemma add_file_error:
  "add_file L originalItems configRootDir i c = Inl e \<Longrightarrow>
     e = Invalid_file_url i \<and> \<not> includes_query i"
  by (auto simp: add_file_def getLocalFilePath_def getRegistryItemPath_def
      split: if_splits sum.splits option.splits)

lemma process_item_NUL:
  "startsWith_NUL i \<Longrightarrow> process_item L originalItems configRootDir (i, it) acc = Inr acc"
  by (cases acc) (simp add: process_item_def)

lemma process_item_External:
  "\<not> startsWith_NUL i \<Longrightarrow> meta_type (item_meta it) = External \<Longrightarrow>
     process_item L originalItems configRootDir (i, it) (c, n)
       = Inr (c\<lparr>dependencies := set_add i (dependencies c)\<rparr>, n)"
  by (simp add: process_item_def)

lemma process_item_shadcn:
  "\<not> startsWith_NUL i \<Longrightarrow> meta_type (item_meta it) = Registry_shadcn \<Longrightarrow>
     process_item L originalItems configRootDir (i, it) (c, n)
       = Inr (c\<lparr>registryDependencies :=
                  set_add (meta_name (item_meta it)) (registryDependencies c)\<rparr>, n)"
  by (simp add: process_item_def)

lemma process_item_internal:
  "\<not> startsWith_NUL i \<Longrightarrow> meta_type (item_meta it) = Registry_internal \<Longrightarrow>
     process_item L originalItems configRootDir (i, it) (c, n)
       = (case enqueue_modules originalItems (item_modules it) n of
            Inl e \<Rightarrow> Inl e
          | Inr n' \<Rightarrow>
              (case add_file L originalItems configRootDir i c of
                 Inl e \<Rightarrow> Inl e
               | Inr c' \<Rightarrow> Inr (c', n')))"
  by (simp add: process_item_def)

lemma process_item_default:
  "\<not> startsWith_NUL i \<Longrightarrow> meta_type (item_meta it) \<noteq> External \<Longrightarrow>
   meta_type (item_meta it) \<noteq> Registry_shadcn \<Longrightarrow>
   meta_type (item_meta it) \<noteq> Registry_internal \<Longrightarrow>
     process_item L originalItems configRootDir (i, it) (c, n)
       = (case add_file L originalItems configRootDir i c of
            Inl e \<Rightarrow> Inl e
          | Inr c' \<Rightarrow> Inr (c', n))"
  by (cases "meta_type (item_meta it)") (simp_all add: process_item_def)

lemma process_item_files:
  assumes "process_item L originalItems configRootDir (i, it) (c, n) = Inr (c', n')"
  shows "if makes_file (i, it)
         then \<exists>path. getLocalFilePath L i configRootDir = Inr path \<and>
                files c' = map_set i (registry_file originalItems i path) (files c)
         else files c' = files c"
proof (cases "startsWith_NUL i")
  case True
  with assms show ?thesis by (simp add: process_item_NUL makes_file_def)
next
  case False
  show ?thesis
  proof (cases "meta_type (item_meta it)")
    case External
    with False assms show ?thesis by (auto simp: process_item_External makes_file_def)
  next
    case Registry_shadcn
    with False assms show ?thesis by (auto simp: process_item_shadcn makes_file_def)
  next
    case Registry_internal
    with False assms show ?thesis
      by (auto simp: process_item_internal makes_file_def split: sum.splits
          dest!: add_file_cases)
  qed (use False assms in \<open>auto simp: process_item_default makes_file_def split: sum.splits
          dest!: add_file_cases\<close>)
qed

lemma process_item_dependencies:
  assumes "process_item L originalItems configRootDir (i, it) (c, n) = Inr (c', n')"
  shows "dependencies c' =
           (if \<not> startsWith_NUL i \<and> meta_type (item_meta it) = External
            then set_add i (dependencies c) else dependencies c)"
proof (cases "startsWith_NUL i")
  case True
  with assms show ?thesis by (simp add: process_item_NUL)
next
  case False
  show ?thesis
  proof (cases "meta_type (item_meta it)")
    case External
    with False assms show ?thesis by (auto simp: process_item_External)
  next
    case Registry_shadcn
    with False assms show ?thesis by (auto simp: process_item_shadcn)
  next
    case Registry_internal
    with False assms show ?thesis
      by (auto simp: process_item_internal split: sum.splits dest!: add_file_cases)
  qed (use False assms in \<open>auto simp: process_item_default split: sum.splits
          dest!: add_file_cases\<close>)
qed

lemma process_item_registryDependencies:
  assumes "process_item L originalItems configRootDir (i, it) (c, n) = Inr (c', n')"
  shows "registryDependencies c' =
           (if \<not> startsWith_NUL i \<and> meta_type (item_meta it) = Registry_shadcn
            then set_add (meta_name (item_meta it)) (registryDependencies c)
            else registryDependencies c)"
proof (cases "startsWith_NUL i")
  case True
  with assms show ?thesis by (simp add: process_item_NUL)
next
  case False
  show ?thesis
  proof (cases "meta_type (item_meta it)")
    case External
    with False assms show ?thesis by (auto simp: process_item_External)
  next
    case Registry_shadcn
    with False assms show ?thesis by (auto simp: process_item_shadcn)
  next
    case Registry_internal
    with False assms show ?thesis
      by (auto simp: process_item_internal split: sum.splits dest!: add_file_cases)
  qed (use False assms in \<open>auto simp: process_item_default split: sum.splits
          dest!: add_file_cases\<close>)
qed

lemma process_item_nextItems:
  assumes "process_item L originalItems configRootDir (i, it) (c, n) = Inr (c', n')"
  shows "if expands (i, it) then enqueue_modules originalItems (item_modules it) n = Inr n'
         else n' = n"
proof (cases "startsWith_NUL i")
  case True
  with assms show ?thesis by (simp add: process_item_NUL expands_def)
next
  case False
  show ?thesis
  proof (cases "meta_type (item_meta it)")
    case External
    with False assms show ?thesis by (auto simp: process_item_External expands_def)
  next
    case Registry_shadcn
    with False assms show ?thesis by (auto simp: process_item_shadcn expands_def)
  next
    case Registry_internal
    with False assms show ?thesis
      by (auto simp: process_item_internal expands_def split: sum.splits)
  qed (use False assms in \<open>auto simp: process_item_default expands_def split: sum.splits\<close>)
qed

lemma process_item_error:
  assumes "process_item L originalItems configRootDir (i, it) (c, n) = Inl e"
  shows "(e = Missing_item \<and> expands (i, it)
            \<and> (\<exists>d \<in> set (item_modules it). map_get originalItems d = None))
         \<or> (e = Invalid_file_url i \<and> makes_file (i, it))"
proof (cases "startsWith_NUL i")
  case True
  with assms show ?thesis by (simp add: process_item_NUL)
next
  case False
  show ?thesis
  proof (cases "meta_type (item_meta it)")
    case External
    with False assms show ?thesis by (auto simp: process_item_External)
  next
    case Registry_shadcn
    with False assms show ?thesis by (auto simp: process_item_shadcn)
  next
    case Registry_internal
    with False assms show ?thesis
      by (auto simp: process_item_internal expands_def makes_file_def
          split: sum.splits dest: enqueue_modules_error add_file_error)
  qed (use False assms in \<open>auto simp: process_item_default makes_file_def
          split: sum.splits dest: add_file_error\<close>)
qed

subsection \<open>One frontier\<close>

lemma process_items_Cons_Inr:
  assumes "process_items L originalItems configRootDir ((i, it) # es) (c, n) = Inr (c', n')"
  obtains c1 n1 where "process_item L originalItems configRootDir (i, it) (c, n) = Inr (c1, n1)"
    and "process_items L originalItems configRootDir es (c1, n1) = Inr (c', n')"
  using assms by (auto split: sum.splits)

lemma process_items_file_keys:
  "process_items L originalItems configRootDir es (c, n) = Inr (c', n') \<Longrightarrow>
     map_keys (files c') = fold set_add (map fst (filter makes_file es)) (map_keys (files c))"
proof (induction es arbitrary: c n)
  case Nil
  then show ?case by simp
next
  case (Cons e es)
  obtain i it where e: "e = (i, it)" by (cases e)
  from Cons.prems obtain c1 n1
    where one: "process_item L originalItems configRootDir (i, it) (c, n) = Inr (c1, n1)"
      and rest: "process_items L originalItems configRootDir es (c1, n1) = Inr (c', n')"
    unfolding e by (rule process_items_Cons_Inr)
  from process_item_files [OF one]
  have "map_keys (files c1) =
      (if makes_file (i, it) then set_add i (map_keys (files c)) else map_keys (files c))"
    by (auto simp: map_keys_map_set_add split: if_splits)
  with Cons.IH [OF rest] show ?case by (simp add: e)
qed

lemma process_items_dependencies:
  "process_items L originalItems configRootDir es (c, n) = Inr (c', n') \<Longrightarrow>
     dependencies c' =
       fold set_add
         (map fst (filter (\<lambda>(i, it). \<not> startsWith_NUL i \<and> meta_type (item_meta it) = External) es))
         (dependencies c)"
proof (induction es arbitrary: c n)
  case Nil
  then show ?case by simp
next
  case (Cons e es)
  obtain i it where e: "e = (i, it)" by (cases e)
  from Cons.prems obtain c1 n1
    where one: "process_item L originalItems configRootDir (i, it) (c, n) = Inr (c1, n1)"
      and rest: "process_items L originalItems configRootDir es (c1, n1) = Inr (c', n')"
    unfolding e by (rule process_items_Cons_Inr)
  from Cons.IH [OF rest] process_item_dependencies [OF one] show ?case by (simp add: e)
qed

lemma process_items_registryDependencies:
  "process_items L originalItems configRootDir es (c, n) = Inr (c', n') \<Longrightarrow>
     registryDependencies c' =
       fold set_add
         (map (\<lambda>(i, it). meta_name (item_meta it))
            (filter (\<lambda>(i, it). \<not> startsWith_NUL i \<and> meta_type (item_meta it) = Registry_shadcn) es))
         (registryDependencies c)"
proof (induction es arbitrary: c n)
  case Nil
  then show ?case by simp
next
  case (Cons e es)
  obtain i it where e: "e = (i, it)" by (cases e)
  from Cons.prems obtain c1 n1
    where one: "process_item L originalItems configRootDir (i, it) (c, n) = Inr (c1, n1)"
      and rest: "process_items L originalItems configRootDir es (c1, n1) = Inr (c', n')"
    unfolding e by (rule process_items_Cons_Inr)
  from Cons.IH [OF rest] process_item_registryDependencies [OF one] show ?case by (simp add: e)
qed

lemma process_items_next_keys:
  "process_items L originalItems configRootDir es (c, n) = Inr (c', n') \<Longrightarrow>
     map_keys n' =
       fold set_add (concat (map (\<lambda>(i, it). item_modules it) (filter expands es))) (map_keys n)"
proof (induction es arbitrary: c n)
  case Nil
  then show ?case by simp
next
  case (Cons e es)
  obtain i it where e: "e = (i, it)" by (cases e)
  from Cons.prems obtain c1 n1
    where one: "process_item L originalItems configRootDir (i, it) (c, n) = Inr (c1, n1)"
      and rest: "process_items L originalItems configRootDir es (c1, n1) = Inr (c', n')"
    unfolding e by (rule process_items_Cons_Inr)
  from process_item_nextItems [OF one]
  have "map_keys n1 = (if expands (i, it) then fold set_add (item_modules it) (map_keys n)
                       else map_keys n)"
    by (auto dest: enqueue_modules_keys split: if_splits)
  with Cons.IH [OF rest] show ?case by (simp add: e)
qed

lemma process_items_next_entries:
  "process_items L originalItems configRootDir es (c, n) = Inr (c', n') \<Longrightarrow>
     set n \<subseteq> set originalItems \<Longrightarrow> set n' \<subseteq> set originalItems"
proof (induction es arbitrary: c n)
  case Nil
  then show ?case by simp
next
  case (Cons e es)
  obtain i it where e: "e = (i, it)" by (cases e)
  from Cons.prems(1) obtain c1 n1
    where one: "process_item L originalItems configRootDir (i, it) (c, n) = Inr (c1, n1)"
      and rest: "process_items L originalItems configRootDir es (c1, n1) = Inr (c', n')"
    unfolding e by (rule process_items_Cons_Inr)
  from process_item_nextItems [OF one] Cons.prems(2)
  have "set n1 \<subseteq> set originalItems"
    by (auto dest: enqueue_modules_entries split: if_splits)
  with Cons.IH [OF rest] show ?case .
qed


lemma process_items_error:
  "process_items L originalItems configRootDir es acc = Inl e \<Longrightarrow>
     \<exists>(i, it) \<in> set es.
        (e = Missing_item \<and> expands (i, it)
           \<and> (\<exists>d \<in> set (item_modules it). map_get originalItems d = None))
        \<or> (e = Invalid_file_url i \<and> makes_file (i, it))"
proof (induction es arbitrary: acc)
  case Nil
  then show ?case by simp
next
  case (Cons x es)
  obtain i it where x: "x = (i, it)" by (cases x)
  obtain c n where acc: "acc = (c, n)" by (cases acc)
  show ?case
  proof (cases "process_item L originalItems configRootDir (i, it) (c, n)")
    case (Inl e')
    with Cons.prems have "e' = e" by (simp add: x acc)
    with process_item_error [of L originalItems configRootDir i it c n e] Inl
    show ?thesis by (auto simp: x)
  next
    case (Inr acc')
    with Cons.prems have "process_items L originalItems configRootDir es acc' = Inl e"
      by (simp add: x acc)
    from Cons.IH [OF this] show ?thesis by auto
  qed
qed

lemma process_items_throws:
  assumes "(i, it) \<in> set es" and "expands (i, it)"
    and "d \<in> set (item_modules it)" and "map_get originalItems d = None"
  shows "\<exists>e. process_items L originalItems configRootDir es acc = Inl e"
  using assms(1)
proof (induction es arbitrary: acc)
  case Nil
  then show ?case by simp
next
  case (Cons x es)
  obtain c n where acc: "acc = (c, n)" by (cases acc)
  show ?case
  proof (cases "process_item L originalItems configRootDir x acc")
    case (Inl e)
    then show ?thesis by simp
  next
    case (Inr acc')
    show ?thesis
    proof (cases "x = (i, it)")
      case True
      from assms(2) have "\<not> startsWith_NUL i" "meta_type (item_meta it) = Registry_internal"
        by (simp_all add: expands_def)
      moreover from assms(3,4)
      have "enqueue_modules originalItems (item_modules it) n = Inl Missing_item"
        by (intro enqueue_modules_missing) auto
      ultimately have "process_item L originalItems configRootDir (i, it) (c, n) = Inl Missing_item"
        by (simp add: process_item_internal)
      with Inr True acc show ?thesis by simp
    next
      case False
      with Cons.prems have "(i, it) \<in> set es" by simp
      from Cons.IH [OF this, of acc'] Inr show ?thesis by simp
    qed
  qed
qed



subsection \<open>The seed\<close>

lemma map_set_fresh: "k \<notin> fst ` set m \<Longrightarrow> map_set k v m = m @ [(k, v)]"
  by (induction m) auto

lemma fold_map_set_distinct:
  "distinct (map fst (acc @ xs)) \<Longrightarrow> fold (\<lambda>(k, v) m. map_set k v m) xs acc = acc @ xs"
proof (induction xs arbitrary: acc)
  case Nil
  show ?case by simp
next
  case (Cons x xs)
  obtain k v where x: "x = (k, v)" by (cases x)
  from Cons.prems have fresh: "k \<notin> fst ` set acc" by (auto simp: x)
  from Cons.prems have "distinct (map fst ((acc @ [(k, v)]) @ xs))" by (simp add: x)
  from Cons.IH [OF this] fresh show ?case by (simp add: x map_set_fresh)
qed

lemma new_Map_distinct: "distinct (map fst xs) \<Longrightarrow> new_Map xs = xs"
  using fold_map_set_distinct [of "[]" xs] by (simp add: new_Map_def)

lemma fold_map_set_entries:
  "set (fold (\<lambda>(k, v) m. map_set k v m) xs acc) \<subseteq> set acc \<union> set xs"
proof (induction xs arbitrary: acc)
  case Nil
  show ?case by simp
next
  case (Cons x xs)
  obtain k v where x: "x = (k, v)" by (cases x)
  from Cons.IH [of "map_set k v acc"] set_map_set [of k v acc] show ?case
    by (auto simp: x)
qed

lemma seed_items_entries: "set (seed_items i originalItems) \<subseteq> set originalItems"
  using fold_map_set_entries [of "filter (\<lambda>(k, v). k \<in> set (seed_keys i originalItems)) originalItems" "[]"]
  by (auto simp: seed_items_def new_Map_def)

lemma seed_items_distinct:
  "distinct (map_keys originalItems) \<Longrightarrow>
     seed_items i originalItems
       = filter (\<lambda>(k, v). k \<in> set (seed_keys i originalItems)) originalItems"
  unfolding seed_items_def map_keys_def
  by (intro new_Map_distinct) (simp add: distinct_map_filter)


subsection \<open>The loop\<close>

lemma walks_loop:
  "walks L i originalItems configRootDir fr c \<Longrightarrow>
     closure_loop L originalItems configRootDir fr c = closure_of L i originalItems configRootDir"
proof (induction rule: walks.induct)
  case seed
  show ?case by (simp add: closure_of_def)
next
  case (step fr c c' n)
  from step.hyps(2,3) have "closure_loop L originalItems configRootDir fr c
      = closure_loop L originalItems configRootDir n c'"
    by (subst closure_loop.simps) simp
  with step.IH show ?case by simp
qed

text \<open>
  The loop leaves through a walked state: one with an empty frontier when it
  returns, one whose frontier throws when it throws.
\<close>

lemma closure_loop_exit_aux:
  fixes i :: string
  defines "Q \<equiv> \<lambda>L originalItems configRootDir fr c y.
     walks L i originalItems configRootDir fr c \<longrightarrow>
       (case y of
          Inr c' \<Rightarrow> walks L i originalItems configRootDir [] c'
        | Inl e \<Rightarrow> \<exists>fr' c1. walks L i originalItems configRootDir fr' c1 \<and> fr' \<noteq> []
              \<and> process_items L originalItems configRootDir fr' (c1, []) = Inl e)"
  assumes run: "closure_loop L originalItems configRootDir fr c = Some y"
  shows "Q L originalItems configRootDir fr c y"
proof (rule closure_loop.raw_induct [where P = Q, OF _ run])
  fix loop L originalItems configRootDir fr c y
  assume IH: "\<And>L' originalItems' configRootDir' fr' c' y'.
      loop L' originalItems' configRootDir' fr' c' = Some y' \<Longrightarrow>
      Q L' originalItems' configRootDir' fr' c' y'"
    and body: "(if fr = [] then Some (Inr c)
      else case process_items L originalItems configRootDir fr (c, []) of
           Inl e \<Rightarrow> Some (Inl e)
           | Inr (c', nextItems) \<Rightarrow> loop L originalItems configRootDir nextItems c') = Some y"
  show "Q L originalItems configRootDir fr c y"
    unfolding Q_def
  proof
    assume w: "walks L i originalItems configRootDir fr c"
    show "case y of
        Inr c' \<Rightarrow> walks L i originalItems configRootDir [] c'
      | Inl e \<Rightarrow> \<exists>fr' c1. walks L i originalItems configRootDir fr' c1 \<and> fr' \<noteq> []
            \<and> process_items L originalItems configRootDir fr' (c1, []) = Inl e"
    proof (cases "fr = []")
      case True
      with body have "y = Inr c" by simp
      with True w show ?thesis by simp
    next
      case False
      show ?thesis
      proof (cases "process_items L originalItems configRootDir fr (c, [])")
        case (Inl e)
        with False body have "y = Inl e" by simp
        with Inl False w show ?thesis by (simp only: sum.case) blast
      next
        case (Inr acc)
        obtain c' n where acc: "acc = (c', n)" by (cases acc)
        from Inr False body have run': "loop L originalItems configRootDir n c' = Some y"
          by (simp add: acc)
        from w False Inr have "walks L i originalItems configRootDir n c'"
          unfolding acc by (rule walks.step)
        with IH [OF run'] show ?thesis unfolding Q_def by (simp only:)
      qed
    qed
  qed
qed

lemma closure_of_returns:
  assumes "closure_of L i originalItems configRootDir = Some (Inr c)"
  shows "walks L i originalItems configRootDir [] c"
  using closure_loop_exit_aux [of L originalItems configRootDir "seed_items i originalItems"
      empty_closure "Inr c" i] assms walks.seed [of L i originalItems configRootDir]
  by (simp add: closure_of_def)

lemma closure_of_throws:
  assumes "closure_of L i originalItems configRootDir = Some (Inl e)"
  shows "\<exists>fr c. walks L i originalItems configRootDir fr c \<and> fr \<noteq> []
           \<and> process_items L originalItems configRootDir fr (c, []) = Inl e"
  using closure_loop_exit_aux [of L originalItems configRootDir "seed_items i originalItems"
      empty_closure "Inl e" i] assms walks.seed [of L i originalItems configRootDir]
  by (simp add: closure_of_def)





subsection \<open>Invariants of the walked states\<close>

lemma walks_entries:
  "walks L i originalItems configRootDir fr c \<Longrightarrow> set fr \<subseteq> set originalItems"
proof (induction rule: walks.induct)
  case seed
  show ?case by (rule seed_items_entries)
next
  case (step fr c c' n)
  from step.hyps(3) show ?case by (rule process_items_next_entries) simp
qed

lemma walks_file_keys:
  "walks L i originalItems configRootDir fr c \<Longrightarrow>
     \<forall>k \<in> set (map_keys (files c)). \<not> startsWith_NUL k \<and> \<not> includes_query k"
proof (induction rule: walks.induct)
  case seed
  show ?case by (simp add: empty_closure_def map_keys_def)
next
  case (step fr c c' n)
  from process_items_file_keys [OF step.hyps(3)]
  have "set (map_keys (files c')) = set (map_keys (files c)) \<union> fst ` {e \<in> set fr. makes_file e}"
    by (simp add: set_fold_set_add)
  with step.IH show ?case by (auto simp: makes_file_def)
qed


lemma walks_registryDependencies:
  "walks L i originalItems configRootDir fr c \<Longrightarrow>
     \<forall>n \<in> set (registryDependencies c). \<exists>(k, it) \<in> set originalItems.
        \<not> startsWith_NUL k \<and> meta_type (item_meta it) = Registry_shadcn
        \<and> n = meta_name (item_meta it)"
proof (induction rule: walks.induct)
  case seed
  show ?case by (simp add: empty_closure_def)
next
  case (step fr c c' n)
  from walks_entries [OF step.hyps(1)] have sub: "set fr \<subseteq> set originalItems" .
  show ?case
    unfolding process_items_registryDependencies [OF step.hyps(3)] set_fold_set_add
    using step.IH sub by fastforce
qed

lemma walks_dependencies:
  "walks L i originalItems configRootDir fr c \<Longrightarrow>
     \<forall>k \<in> set (dependencies c). \<exists>it. (k, it) \<in> set originalItems
        \<and> \<not> startsWith_NUL k \<and> meta_type (item_meta it) = External"
proof (induction rule: walks.induct)
  case seed
  show ?case by (simp add: empty_closure_def)
next
  case (step fr c c' n)
  from walks_entries [OF step.hyps(1)] have sub: "set fr \<subseteq> set originalItems" .
  show ?case
    unfolding process_items_dependencies [OF step.hyps(3)] set_fold_set_add
    using step.IH sub by fastforce
qed

section \<open>ClosureBuilder: a cycle of internal modules\<close>








section \<open>ClosureBuilder: identities that never become files\<close>

text \<open>
  C3. Whenever \<open>createShadcnItemDependencies\<close> returns, its \<open>files\<close> list is the
  list of values of the \<open>files\<close> map at loop exit, and no key of that map starts with
  the character NUL or contains \<open>?\<close>. A frontier entry whose identity starts with NUL
  is skipped: the loop body leaves the three collections and the next frontier as
  they were.
\<close>

theorem closure_files_exclude_marked_identities:
  "(createShadcnItemDependencies L i originalItems configRootDir = Some (Inr r) \<longrightarrow>
      (\<exists>c. closure_of L i originalItems configRootDir = Some (Inr c)
         \<and> result_files r = map_values (files c)
         \<and> (\<forall>k \<in> set (map_keys (files c)). \<not> startsWith_NUL k \<and> \<not> includes_query k)))
   \<and> (startsWith_NUL k \<longrightarrow>
        process_item L originalItems configRootDir (k, it) (c0, n0) = Inr (c0, n0))"
proof (intro conjI impI)
  assume run: "createShadcnItemDependencies L i originalItems configRootDir = Some (Inr r)"
  then obtain c where c: "closure_of L i originalItems configRootDir = Some (Inr c)"
    and r: "r = closure_result c"
    by (auto simp: createShadcnItemDependencies_def split: option.splits sum.splits)
  from closure_of_returns [OF c] have "walks L i originalItems configRootDir [] c" .
  from walks_file_keys [OF this] c r
  show "\<exists>c. closure_of L i originalItems configRootDir = Some (Inr c)
         \<and> result_files r = map_values (files c)
         \<and> (\<forall>k \<in> set (map_keys (files c)). \<not> startsWith_NUL k \<and> \<not> includes_query k)"
    by (auto simp: closure_result_def)
next
  assume "startsWith_NUL k"
  then show "process_item L originalItems configRootDir (k, it) (c0, n0) = Inr (c0, n0)"
    by (rule process_item_NUL)
qed

theorem closure_files_exclude_marked_identities_witness:
  "createShadcnItemDependencies plain_lib card_id card_items ''/proj''
     = Some (Inr (closure_result card_closure))
   \<and> (\<exists>c. closure_of plain_lib card_id card_items ''/proj'' = Some (Inr c)
         \<and> result_files (closure_result card_closure) = map_values (files c)
         \<and> (\<forall>k \<in> set (map_keys (files c)). \<not> startsWith_NUL k \<and> \<not> includes_query k))
   \<and> startsWith_NUL helper_id
   \<and> process_item plain_lib card_items ''/proj''
        (helper_id, shadcnItem helper_id Registry_internal []) (empty_closure, [])
        = Inr (empty_closure, [])"
proof -
  have run: "createShadcnItemDependencies plain_lib card_id card_items ''/proj''
     = Some (Inr (closure_result card_closure))"
    by code_simp
  have nul: "startsWith_NUL helper_id"
    by code_simp
  from closure_files_exclude_marked_identities
    [of plain_lib card_id card_items "''/proj''" "closure_result card_closure" helper_id
        "shadcnItem helper_id Registry_internal []" empty_closure "[]"] run nul
  show ?thesis by blast
qed

section \<open>ClosureBuilder: internal helpers are flattened\<close>










lemma card_closed: "records_closed card_items" "paths_defined plain_lib card_items"
  by code_simp+




section \<open>ClosureBuilder: components, hooks and libs in another item's closure\<close>

text \<open>
  C2, as stated, fails: a module classified \<open>registry:component\<close> whose identity
  contains \<open>?\<close> (the components filter accepts it) is in the frontier of the hook
  that imports it, and the loop body adds no file for it; the returned files hold
  the hook's entry only.
\<close>

theorem component_with_query_counterexample:
  "(block_id, block_item) \<in> set (seed_items hook_id hook_items)
   \<and> isComponent (plugin_filters ''/proj'') block_id
   \<and> meta_type (item_meta block_item) = Registry_component
   \<and> process_item plain_lib hook_items ''/proj'' (block_id, block_item) (empty_closure, [])
        = Inr (empty_closure, [])
   \<and> createShadcnItemDependencies plain_lib hook_id hook_items ''/proj''
        = Some (Inr \<lparr>result_dependencies = [], result_registryDependencies = [],
             result_files = [registry_file hook_items hook_id ''src/composables/use-card.ts'']\<rparr>)"
  by code_simp

text \<open>
  C2, amended. A frontier entry classified \<open>registry:component\<close>, \<open>registry:hook\<close> or
  \<open>registry:lib\<close> whose identity does not start with NUL leaves the next frontier,
  the dependencies and the cross-references as they were; its file is set in the
  \<open>files\<close> map unless its identity contains \<open>?\<close>, in which case the map is left as
  it was. Every cross-reference that \<open>createShadcnItemDependencies\<close> returns is the
  name of a record classified \<open>registry:shadcn\<close>.
\<close>

theorem publishable_modules_are_copied_not_walked:
  "(meta_type (item_meta it) \<in> {Registry_component, Registry_hook, Registry_lib}
      \<and> \<not> startsWith_NUL i
      \<and> process_item L originalItems configRootDir (i, it) (cl, n) = Inr (cl', n')
    \<longrightarrow> n' = n \<and> registryDependencies cl' = registryDependencies cl
        \<and> dependencies cl' = dependencies cl
        \<and> (if includes_query i then files cl' = files cl
            else \<exists>path. getLocalFilePath L i configRootDir = Inr path
                   \<and> files cl' = map_set i (registry_file originalItems i path) (files cl)))
   \<and> (createShadcnItemDependencies L a originalItems configRootDir = Some (Inr r)
    \<longrightarrow> (\<forall>x \<in> set (result_registryDependencies r).
           \<exists>(k, kt) \<in> set originalItems.
              \<not> startsWith_NUL k \<and> meta_type (item_meta kt) = Registry_shadcn
              \<and> x = meta_name (item_meta kt)))"
proof (intro conjI impI)
  assume h: "meta_type (item_meta it) \<in> {Registry_component, Registry_hook, Registry_lib}
      \<and> \<not> startsWith_NUL i
      \<and> process_item L originalItems configRootDir (i, it) (cl, n) = Inr (cl', n')"
  then have run: "process_item L originalItems configRootDir (i, it) (cl, n) = Inr (cl', n')"
    and ty: "meta_type (item_meta it) \<noteq> External" "meta_type (item_meta it) \<noteq> Registry_shadcn"
      "meta_type (item_meta it) \<noteq> Registry_internal"
    and nul: "\<not> startsWith_NUL i"
    by auto
  from process_item_nextItems [OF run] ty show "n' = n"
    by (simp add: expands_def)
  from process_item_registryDependencies [OF run] ty
  show "registryDependencies cl' = registryDependencies cl" by simp
  from process_item_dependencies [OF run] ty
  show "dependencies cl' = dependencies cl" by simp
  from process_item_files [OF run] ty nul
  show "if includes_query i then files cl' = files cl
        else \<exists>path. getLocalFilePath L i configRootDir = Inr path
               \<and> files cl' = map_set i (registry_file originalItems i path) (files cl)"
    by (simp add: makes_file_def split: if_splits)
next
  assume "createShadcnItemDependencies L a originalItems configRootDir = Some (Inr r)"
  then obtain c where c: "closure_of L a originalItems configRootDir = Some (Inr c)"
    and r: "r = closure_result c"
    by (auto simp: createShadcnItemDependencies_def split: option.splits sum.splits)
  from walks_registryDependencies [OF closure_of_returns [OF c]] r
  show "\<forall>x \<in> set (result_registryDependencies r).
           \<exists>(k, kt) \<in> set originalItems.
              \<not> startsWith_NUL k \<and> meta_type (item_meta kt) = Registry_shadcn
              \<and> x = meta_name (item_meta kt)"
    by (simp add: closure_result_def)
qed

theorem publishable_modules_are_copied_not_walked_witness:
  "meta_type (item_meta card_item) \<in> {Registry_component, Registry_hook, Registry_lib}
   \<and> \<not> startsWith_NUL card_id \<and> \<not> includes_query card_id
   \<and> item_modules card_item = [''clsx'', button_id, format_id, helper_id, body_id]
   \<and> process_item plain_lib widget_items ''/proj'' (card_id, card_item) (empty_closure, [])
        = Inr (card_alone, [])
   \<and> (\<exists>path. getLocalFilePath plain_lib card_id ''/proj'' = Inr path
          \<and> files card_alone
              = map_set card_id (registry_file widget_items card_id path) (files empty_closure))
   \<and> createShadcnItemDependencies plain_lib widget_id widget_items ''/proj''
        = Some (Inr widget_result)
   \<and> ''button'' \<in> set (result_registryDependencies widget_result)
   \<and> (\<exists>(k, kt) \<in> set widget_items.
          \<not> startsWith_NUL k \<and> meta_type (item_meta kt) = Registry_shadcn
          \<and> ''button'' = meta_name (item_meta kt))"
proof -
  have ty: "meta_type (item_meta card_item) \<in> {Registry_component, Registry_hook, Registry_lib}"
    by code_simp
  have nul: "\<not> startsWith_NUL card_id" and q: "\<not> includes_query card_id"
    by code_simp+
  have mods: "item_modules card_item = [''clsx'', button_id, format_id, helper_id, body_id]"
    by code_simp
  have one: "process_item plain_lib widget_items ''/proj'' (card_id, card_item) (empty_closure, [])
        = Inr (card_alone, [])"
    by code_simp
  have run: "createShadcnItemDependencies plain_lib widget_id widget_items ''/proj''
        = Some (Inr widget_result)"
    by code_simp
  have button: "''button'' \<in> set (result_registryDependencies widget_result)"
    by code_simp
  note t = publishable_modules_are_copied_not_walked
    [of card_item card_id plain_lib widget_items "''/proj''" empty_closure "[]" card_alone "[]"
        widget_id widget_result]
  from t ty nul q one
  have "\<exists>path. getLocalFilePath plain_lib card_id ''/proj'' = Inr path
          \<and> files card_alone
              = map_set card_id (registry_file widget_items card_id path) (files empty_closure)"
    by (simp only: if_False) blast
  moreover from t run button
  have "\<exists>(k, kt) \<in> set widget_items.
          \<not> startsWith_NUL k \<and> meta_type (item_meta kt) = Registry_shadcn
          \<and> ''button'' = meta_name (item_meta kt)"
    by blast
  ultimately have "(\<exists>path. getLocalFilePath plain_lib card_id ''/proj'' = Inr path
          \<and> files card_alone
              = map_set card_id (registry_file widget_items card_id path) (files empty_closure))
      \<and> (\<exists>(k, kt) \<in> set widget_items.
          \<not> startsWith_NUL k \<and> meta_type (item_meta kt) = Registry_shadcn
          \<and> ''button'' = meta_name (item_meta kt))"
    by (rule conjI)
  with ty nul q mods one run button show ?thesis
    by blast
qed

section \<open>ClosureBuilder: the missing-record failure\<close>

lemma createShadcnItemDependencies_error:
  "createShadcnItemDependencies L a originalItems configRootDir = Some (Inl e)
     \<longleftrightarrow> closure_of L a originalItems configRootDir = Some (Inl e)"
  by (auto simp: createShadcnItemDependencies_def split: option.splits sum.splits)

lemma walked_frontier_throws:
  assumes w: "walks L a originalItems configRootDir fr cl"
    and bad: "(i, it) \<in> set fr" "expands (i, it)" "d \<in> set (item_modules it)"
      "map_get originalItems d = None"
  shows "\<exists>e. createShadcnItemDependencies L a originalItems configRootDir = Some (Inl e)"
proof -
  from process_items_throws [OF bad] obtain e
    where e: "process_items L originalItems configRootDir fr (cl, []) = Inl e" by blast
  from bad(1) have "fr \<noteq> []" by auto
  with e have "closure_loop L originalItems configRootDir fr cl = Some (Inl e)"
    by (subst closure_loop.simps) simp
  with walks_loop [OF w] have "closure_of L a originalItems configRootDir = Some (Inl e)"
    by simp
  then show ?thesis by (auto simp: createShadcnItemDependencies_error)
qed

lemma missing_item_origin:
  assumes "createShadcnItemDependencies L a originalItems configRootDir = Some (Inl Missing_item)"
  shows "\<exists>fr cl i it d. walks L a originalItems configRootDir fr cl \<and> (i, it) \<in> set fr
           \<and> expands (i, it) \<and> d \<in> set (item_modules it) \<and> map_get originalItems d = None"
proof -
  from assms have "closure_of L a originalItems configRootDir = Some (Inl Missing_item)"
    by (simp add: createShadcnItemDependencies_error)
  from closure_of_throws [OF this] obtain fr cl
    where w: "walks L a originalItems configRootDir fr cl"
      and e: "process_items L originalItems configRootDir fr (cl, []) = Inl Missing_item"
    by blast
  from process_items_error [OF e] obtain i it d
    where "(i, it) \<in> set fr" "expands (i, it)" "d \<in> set (item_modules it)"
      "map_get originalItems d = None"
    by auto
  with w show ?thesis by blast
qed

text \<open>
  C5, as stated, fails: a module classified \<open>registry:internal\<close> whose identity
  starts with NUL is in the first frontier and declares an import that has no
  record, and the closure is returned without an error.
\<close>

theorem skipped_internal_module_counterexample:
  "(helper_id, stale_virtual_helper) \<in> set (seed_items badge_id stale_virtual_items)
   \<and> meta_type (item_meta stale_virtual_helper) = Registry_internal
   \<and> gone_id \<in> set (item_modules stale_virtual_helper)
   \<and> map_get stale_virtual_items gone_id = None
   \<and> createShadcnItemDependencies plain_lib badge_id stale_virtual_items ''/proj''
        = Some (Inr \<lparr>result_dependencies = [], result_registryDependencies = [],
             result_files =
               [registry_file stale_virtual_items badge_id ''src/components/badge.vue'']\<rparr>)"
  by code_simp

text \<open>
  C5, amended. If a frontier that the loop walks holds a module classified
  \<open>registry:internal\<close> whose identity does not start with NUL and one of whose imports
  has no record in the map, \<open>createShadcnItemDependencies\<close> throws. If every import
  of every such module in every walked frontier has a record, the missing-record
  error is not raised.
\<close>

theorem missing_record_is_fatal:
  "(walks L a originalItems configRootDir fr cl \<and> (i, it) \<in> set fr
      \<and> \<not> startsWith_NUL i \<and> meta_type (item_meta it) = Registry_internal
      \<and> d \<in> set (item_modules it) \<and> map_get originalItems d = None
    \<longrightarrow> (\<exists>e. createShadcnItemDependencies L a originalItems configRootDir = Some (Inl e)))
   \<and> ((\<forall>fr' cl' i' it' d'.
          walks L a originalItems configRootDir fr' cl' \<and> (i', it') \<in> set fr'
          \<and> \<not> startsWith_NUL i' \<and> meta_type (item_meta it') = Registry_internal
          \<and> d' \<in> set (item_modules it')
          \<longrightarrow> map_get originalItems d' \<noteq> None)
    \<longrightarrow> createShadcnItemDependencies L a originalItems configRootDir \<noteq> Some (Inl Missing_item))"
proof (intro conjI impI)
  assume "walks L a originalItems configRootDir fr cl \<and> (i, it) \<in> set fr
      \<and> \<not> startsWith_NUL i \<and> meta_type (item_meta it) = Registry_internal
      \<and> d \<in> set (item_modules it) \<and> map_get originalItems d = None"
  then show "\<exists>e. createShadcnItemDependencies L a originalItems configRootDir = Some (Inl e)"
    by (intro walked_frontier_throws [of L a originalItems configRootDir fr cl i it d])
      (simp_all add: expands_def)
next
  assume present: "\<forall>fr' cl' i' it' d'.
          walks L a originalItems configRootDir fr' cl' \<and> (i', it') \<in> set fr'
          \<and> \<not> startsWith_NUL i' \<and> meta_type (item_meta it') = Registry_internal
          \<and> d' \<in> set (item_modules it')
          \<longrightarrow> map_get originalItems d' \<noteq> None"
  show "createShadcnItemDependencies L a originalItems configRootDir \<noteq> Some (Inl Missing_item)"
  proof
    assume "createShadcnItemDependencies L a originalItems configRootDir = Some (Inl Missing_item)"
    from missing_item_origin [OF this] obtain fr' cl' i' it' d'
      where "walks L a originalItems configRootDir fr' cl'" "(i', it') \<in> set fr'"
        "expands (i', it')" "d' \<in> set (item_modules it')" "map_get originalItems d' = None"
      by blast
    moreover from this(3) have "\<not> startsWith_NUL i'"
      "meta_type (item_meta it') = Registry_internal"
      by (simp_all add: expands_def)
    ultimately show False using present by blast
  qed
qed

theorem missing_record_is_fatal_witness:
  "walks plain_lib badge_id stale_items ''/proj'' (seed_items badge_id stale_items) empty_closure
   \<and> (format_id, stale_helper) \<in> set (seed_items badge_id stale_items)
   \<and> \<not> startsWith_NUL format_id \<and> meta_type (item_meta stale_helper) = Registry_internal
   \<and> gone_id \<in> set (item_modules stale_helper) \<and> map_get stale_items gone_id = None
   \<and> (\<exists>e. createShadcnItemDependencies plain_lib badge_id stale_items ''/proj'' = Some (Inl e))
   \<and> createShadcnItemDependencies plain_lib badge_id stale_items ''/proj''
        = Some (Inl Missing_item)
   \<and> createShadcnItemDependencies plain_lib card_id card_items ''/proj''
        \<noteq> Some (Inl Missing_item)"
proof -
  have w: "walks plain_lib badge_id stale_items ''/proj'' (seed_items badge_id stale_items)
      empty_closure"
    by (rule walks.seed)
  have facts: "(format_id, stale_helper) \<in> set (seed_items badge_id stale_items)"
    "\<not> startsWith_NUL format_id" "meta_type (item_meta stale_helper) = Registry_internal"
    "gone_id \<in> set (item_modules stale_helper)" "map_get stale_items gone_id = None"
    by code_simp+
  have thrown: "createShadcnItemDependencies plain_lib badge_id stale_items ''/proj''
        = Some (Inl Missing_item)"
    by code_simp
  have present: "map_get card_items d' \<noteq> None"
    if "walks plain_lib card_id card_items ''/proj'' fr' cl'" and "(i', it') \<in> set fr'"
      and "d' \<in> set (item_modules it')" for fr' cl' i' it' d'
  proof -
    from walks_entries [OF that(1)] that(2) have "(i', it') \<in> set card_items" by auto
    with that(3) show ?thesis
      by (auto simp: card_items_def card_item_def format_item_def units_item_def shadcnItem_def
          map_get_def card_id_def button_id_def format_id_def units_id_def helper_id_def
          body_id_def)
  qed
  from missing_record_is_fatal
    [of plain_lib badge_id stale_items "''/proj''" "seed_items badge_id stale_items"
        empty_closure format_id stale_helper gone_id] w facts
  have first: "\<exists>e. createShadcnItemDependencies plain_lib badge_id stale_items ''/proj''
      = Some (Inl e)"
    by blast
  from missing_record_is_fatal [of plain_lib card_id card_items "''/proj''"] present
  have second: "createShadcnItemDependencies plain_lib card_id card_items ''/proj''
        \<noteq> Some (Inl Missing_item)"
    by blast
  from w facts first thrown second show ?thesis by blast
qed

section \<open>ClosureBuilder: the seed\<close>






section \<open>Order of the import lists and of the collections\<close>

lemma fold_set_add_Nil: "fold set_add xs [] = first_occurrences xs"
  using fold_set_add_first_occurrences [of "[]" xs] by simp

text \<open>
  C9, as stated, fails: the record that the analysis pass stores for a module lists
  the dynamic imports first, and among the files of the card component the module
  that the helper imports dynamically comes before the one it imports statically.
  (The card's own imports are in the first frontier, which follows the record map.)
\<close>

theorem dynamic_imports_first_counterexample:
  "importedIds order_info = [inner_static_id]
   \<and> dynamicallyImportedIds order_info = [inner_dynamic_id]
   \<and> item_modules (shadcnItem_of \<lparr>meta_name = format_id, meta_type = Registry_internal\<rparr> order_info)
        = [inner_dynamic_id, inner_static_id]
   \<and> buildEnd_file_paths plain_lib (plugin_filters ''/proj'') order_context ''/proj''
        = Some [(''card'', [''src/components/card/index.ts'', ''src/components/card/format.ts'',
                           ''src/static.ts'', ''src/dynamic.ts'',
                           ''src/inner-dynamic.ts'', ''src/inner-static.ts''])]"
  by code_simp

text \<open>
  C9, amended. The walker reads the static imports of a module before its dynamic
  imports; the record stored for the module, which the closure builder consumes,
  lists the dynamic imports before the static ones. Expanding an internal module
  into an empty next frontier enqueues its imports in the record's order, each
  identity at its first occurrence. The first frontier holds the records of the
  target and of its direct imports in the order of the record map. A frontier is
  processed in its own order: from empty collections, the dependencies are its
  external identities, the file keys are the identities of its file-producing
  entries and the next frontier is the concatenation of the import lists of its
  expanded entries, each in frontier order and at its first occurrence.
\<close>

theorem import_order_determines_insertion_order:
  "walker_importedIds moduleInfo = importedIds moduleInfo @ dynamicallyImportedIds moduleInfo
   \<and> item_modules (shadcnItem_of shadcnItemMeta moduleInfo)
        = dynamicallyImportedIds moduleInfo @ importedIds moduleInfo
   \<and> (\<not> startsWith_NUL i \<and> meta_type (item_meta it) = Registry_internal
        \<and> process_item L originalItems configRootDir (i, it) (cl, []) = Inr (cl1, n1)
      \<longrightarrow> map_keys n1 = first_occurrences (item_modules it))
   \<and> (distinct (map_keys originalItems)
      \<longrightarrow> seed_items a originalItems
            = filter (\<lambda>(k, v). k \<in> set (seed_keys a originalItems)) originalItems)
   \<and> (process_items L originalItems configRootDir fr (empty_closure, []) = Inr (cl', n')
      \<longrightarrow> dependencies cl'
            = first_occurrences (map fst (filter (\<lambda>(k, kt). \<not> startsWith_NUL k
                  \<and> meta_type (item_meta kt) = External) fr))
          \<and> map_keys (files cl') = first_occurrences (map fst (filter makes_file fr))
          \<and> map_keys n'
              = first_occurrences (concat (map (\<lambda>(k, kt). item_modules kt) (filter expands fr))))"
proof (intro conjI impI)
  show "walker_importedIds moduleInfo = importedIds moduleInfo @ dynamicallyImportedIds moduleInfo"
    by (simp add: walker_importedIds_def)
  show "item_modules (shadcnItem_of shadcnItemMeta moduleInfo)
        = dynamicallyImportedIds moduleInfo @ importedIds moduleInfo"
    by (simp add: shadcnItem_of_def)
next
  assume h: "\<not> startsWith_NUL i \<and> meta_type (item_meta it) = Registry_internal
        \<and> process_item L originalItems configRootDir (i, it) (cl, []) = Inr (cl1, n1)"
  then have "expands (i, it)" by (simp add: expands_def)
  with h process_item_nextItems [of L originalItems configRootDir i it cl "[]" cl1 n1]
  have "enqueue_modules originalItems (item_modules it) [] = Inr n1" by simp
  from enqueue_modules_keys [OF this]
  show "map_keys n1 = first_occurrences (item_modules it)"
    by (simp add: fold_set_add_Nil map_keys_def)
next
  assume "distinct (map_keys originalItems)"
  then show "seed_items a originalItems
      = filter (\<lambda>(k, v). k \<in> set (seed_keys a originalItems)) originalItems"
    by (rule seed_items_distinct)
next
  assume run: "process_items L originalItems configRootDir fr (empty_closure, []) = Inr (cl', n')"
  from process_items_dependencies [OF run]
  show "dependencies cl'
      = first_occurrences (map fst (filter (\<lambda>(k, kt). \<not> startsWith_NUL k
            \<and> meta_type (item_meta kt) = External) fr))"
    by (simp add: fold_set_add_Nil empty_closure_def)
  from process_items_file_keys [OF run]
  show "map_keys (files cl') = first_occurrences (map fst (filter makes_file fr))"
    by (simp add: fold_set_add_Nil empty_closure_def map_keys_def)
  from process_items_next_keys [OF run]
  show "map_keys n'
      = first_occurrences (concat (map (\<lambda>(k, kt). item_modules kt) (filter expands fr)))"
    by (simp add: fold_set_add_Nil map_keys_def)
qed

theorem import_order_determines_insertion_order_witness:
  "walker_importedIds order_info = importedIds order_info @ dynamicallyImportedIds order_info
   \<and> walker_importedIds order_info = [inner_static_id, inner_dynamic_id]
   \<and> item_modules (shadcnItem_of \<lparr>meta_name = format_id, meta_type = Registry_internal\<rparr> order_info)
        = [inner_dynamic_id, inner_static_id]
   \<and> \<not> startsWith_NUL format_id \<and> meta_type (item_meta format_item) = Registry_internal
   \<and> process_item plain_lib card_items ''/proj'' (format_id, format_item) (empty_closure, [])
        = Inr (format_closure, [(units_id, units_item)])
   \<and> map_keys [(units_id, units_item)] = first_occurrences (item_modules format_item)
   \<and> distinct (map_keys card_items)
   \<and> seed_items card_id card_items
        = filter (\<lambda>(k, v). k \<in> set (seed_keys card_id card_items)) card_items
   \<and> process_items plain_lib card_items ''/proj'' (seed_items card_id card_items)
        (empty_closure, []) = Inr (card_first_closure, [(units_id, units_item)])
   \<and> dependencies card_first_closure
        = first_occurrences (map fst (filter (\<lambda>(k, kt). \<not> startsWith_NUL k
              \<and> meta_type (item_meta kt) = External) (seed_items card_id card_items)))
   \<and> map_keys (files card_first_closure)
        = first_occurrences (map fst (filter makes_file (seed_items card_id card_items)))
   \<and> map_keys (files card_first_closure) = [card_id, format_id]
   \<and> map_keys [(units_id, units_item)]
        = first_occurrences (concat (map (\<lambda>(k, kt). item_modules kt)
            (filter expands (seed_items card_id card_items))))"
proof -
  have facts: "\<not> startsWith_NUL format_id" "meta_type (item_meta format_item) = Registry_internal"
    "distinct (map_keys card_items)"
    "walker_importedIds order_info = [inner_static_id, inner_dynamic_id]"
    "map_keys (files card_first_closure) = [card_id, format_id]"
    by code_simp+
  have one: "process_item plain_lib card_items ''/proj'' (format_id, format_item) (empty_closure, [])
        = Inr (format_closure, [(units_id, units_item)])"
    by code_simp
  have front: "process_items plain_lib card_items ''/proj'' (seed_items card_id card_items)
        (empty_closure, []) = Inr (card_first_closure, [(units_id, units_item)])"
    by code_simp
  from import_order_determines_insertion_order
    [of order_info "\<lparr>meta_name = format_id, meta_type = Registry_internal\<rparr>" format_id format_item
        plain_lib card_items "''/proj''" empty_closure format_closure "[(units_id, units_item)]"
        card_id "seed_items card_id card_items" card_first_closure "[(units_id, units_item)]"]
    facts one front
  have "item_modules (shadcnItem_of \<lparr>meta_name = format_id, meta_type = Registry_internal\<rparr> order_info)
      = dynamicallyImportedIds order_info @ importedIds order_info"
    and rest: "walker_importedIds order_info = importedIds order_info @ dynamicallyImportedIds order_info"
      "map_keys [(units_id, units_item)] = first_occurrences (item_modules format_item)"
      "seed_items card_id card_items
        = filter (\<lambda>(k, v). k \<in> set (seed_keys card_id card_items)) card_items"
      "dependencies card_first_closure
        = first_occurrences (map fst (filter (\<lambda>(k, kt). \<not> startsWith_NUL k
              \<and> meta_type (item_meta kt) = External) (seed_items card_id card_items)))"
      "map_keys (files card_first_closure)
        = first_occurrences (map fst (filter makes_file (seed_items card_id card_items)))"
      "map_keys [(units_id, units_item)]
        = first_occurrences (concat (map (\<lambda>(k, kt). item_modules kt)
            (filter expands (seed_items card_id card_items))))"
    by blast+
  moreover have "dynamicallyImportedIds order_info @ importedIds order_info
      = [inner_dynamic_id, inner_static_id]"
    by code_simp
  ultimately show ?thesis
    using facts one front by simp
qed

section \<open>Paths\<close>

lemma split_on_nonempty: "split_on c xs \<noteq> []"
  by (induction xs) (auto split: list.splits)

lemma split_on_append: "split_on c (a @ c # b) = split_on c a @ split_on c b"
proof (induction a)
  case Nil
  show ?case by simp
next
  case (Cons x a)
  obtain s ss where "split_on c a = s # ss"
    using split_on_nonempty [of c a] by (cases "split_on c a") auto
  with Cons show ?case by simp
qed

lemma split_on_plain: "c \<notin> set s \<Longrightarrow> split_on c s = [s]"
  by (induction s) auto

lemma split_on_segments: "s \<in> set (split_on c xs) \<Longrightarrow> c \<notin> set s"
proof (induction xs arbitrary: s)
  case Nil
  then show ?case by simp
next
  case (Cons x xs)
  obtain t ts where t: "split_on c xs = t # ts"
    using split_on_nonempty [of c xs] by (cases "split_on c xs") auto
  with Cons show ?case by (auto split: if_splits)
qed

lemma split_join_path:
  "segs \<noteq> [] \<Longrightarrow> \<forall>s \<in> set segs. CHR ''/'' \<notin> set s \<Longrightarrow> split_path (join_path segs) = segs"
proof (induction segs rule: join_path.induct)
  case 1
  then show ?case by simp
next
  case (2 s)
  then show ?case by (simp add: split_path_def split_on_plain)
next
  case (3 s t ss)
  then show ?case by (simp add: split_path_def split_on_append split_on_plain)
qed

lemma normalizeString_append:
  "normalizeString b res (xs @ ys) = normalizeString b (rev (normalizeString b res xs)) ys"
  by (induction b res xs rule: normalizeString.induct) auto

lemma normalizeString_plain:
  "\<forall>s \<in> set ss. s \<noteq> [] \<and> s \<noteq> ''.'' \<and> s \<noteq> ''..'' \<Longrightarrow> normalizeString b res ss = rev res @ ss"
  by (induction ss arbitrary: res) simp_all

lemma normalizeString_segments:
  "s \<in> set (normalizeString False res xs) \<Longrightarrow>
     s \<in> set res \<or> (s \<in> set xs \<and> s \<noteq> [] \<and> s \<noteq> ''.'' \<and> s \<noteq> ''..'')"
proof (induction False res xs rule: normalizeString.induct)
  case (1 res)
  then show ?case by simp
next
  case (2 res x xs)
  then show ?case
    by (auto split: if_splits dest: list.set_sel(2))
qed

lemma resolve_segments_plain:
  assumes "s \<in> set (resolve_segments p)"
  shows "s \<noteq> [] \<and> s \<noteq> ''.'' \<and> s \<noteq> ''..'' \<and> CHR ''/'' \<notin> set s"
  using normalizeString_segments [of s "[]" "split_path p"] assms
    split_on_segments [of s "CHR ''/''" p]
  by (auto simp: resolve_segments_def split_path_def)

lemma resolve_segments_append:
  assumes "\<forall>s \<in> set segs. s \<noteq> [] \<and> s \<noteq> ''.'' \<and> s \<noteq> ''..'' \<and> CHR ''/'' \<notin> set s"
    and "segs \<noteq> []"
  shows "resolve_segments (root @ CHR ''/'' # join_path segs) = resolve_segments root @ segs"
proof -
  have "split_path (root @ CHR ''/'' # join_path segs) = split_path root @ segs"
    using assms split_join_path [of segs] by (simp add: split_path_def split_on_append)
  then show ?thesis
    using assms(1) by (simp add: resolve_segments_def normalizeString_append normalizeString_plain)
qed

lemma join_path_nonempty: "\<exists>s \<in> set segs. s \<noteq> [] \<Longrightarrow> join_path segs \<noteq> []"
  by (induction segs rule: join_path.induct) auto

lemma resolve_segments_normalized:
  assumes "\<forall>s \<in> set segs. s \<noteq> [] \<and> s \<noteq> ''.'' \<and> s \<noteq> ''..'' \<and> CHR ''/'' \<notin> set s"
  shows "resolve_segments (CHR ''/'' # join_path segs) = segs"
proof (cases "segs = []")
  case True
  then show ?thesis by (simp add: resolve_segments_def split_path_def)
next
  case False
  with resolve_segments_append [OF assms False, of "[]"] show ?thesis
    by (simp add: resolve_segments_def split_path_def)
qed

lemma drop_common_prefix: "drop_common (p @ xs) (p @ ys) = drop_common xs ys"
  by (induction p) simp_all

lemma replace_first_slash_plain: "CHR ''/'' \<notin> set s \<Longrightarrow> replace_first_slash s = s"
  by (induction s) auto

lemma resolve_segments_trailing: "resolve_segments (p @ ''/'') = resolve_segments p"
  by (simp add: resolve_segments_def split_path_def split_on_append normalizeString_append)

lemma joinPath_segments:
  assumes abs: "isAbsolute root"
    and plain: "\<forall>s \<in> set segs. s \<noteq> [] \<and> s \<noteq> ''.'' \<and> s \<noteq> ''..'' \<and> CHR ''/'' \<notin> set s"
    and ne: "segs \<noteq> []"
  shows "resolve_segments (joinPath [root, join_path segs]) = resolve_segments root @ segs"
proof -
  let ?p = "root @ CHR ''/'' # join_path segs"
  let ?S = "resolve_segments root @ segs"
  from ne plain have j: "join_path segs \<noteq> []"
    by (intro join_path_nonempty) (cases segs, auto)
  from abs have r: "root \<noteq> []" and a: "isAbsolute ?p"
    by (auto simp: isAbsolute_def)
  from r j have jp: "joinPath [root, join_path segs] = normalize ?p"
    by (simp add: joinPath_def)
  have S: "resolve_segments ?p = ?S"
    using plain ne by (rule resolve_segments_append)
  have all: "\<forall>s \<in> set ?S. s \<noteq> [] \<and> s \<noteq> ''.'' \<and> s \<noteq> ''..'' \<and> CHR ''/'' \<notin> set s"
    using plain resolve_segments_plain [of _ root] by auto
  from ne plain have q: "join_path ?S \<noteq> []"
    by (intro join_path_nonempty) (cases segs, auto)
  have "normalize ?p = CHR ''/'' # join_path ?S
      \<or> normalize ?p = (CHR ''/'' # join_path ?S) @ ''/''"
    using a q S by (simp add: normalize_def Let_def resolve_segments_def [symmetric])
  then have "resolve_segments (normalize ?p) = ?S"
    using resolve_segments_normalized [OF all] resolve_segments_trailing by metis
  with jp show ?thesis by simp
qed

lemma relativePath_inside:
  assumes abs: "isAbsolute root"
    and d: "\<forall>s \<in> set dsegs. s \<noteq> [] \<and> s \<noteq> ''.'' \<and> s \<noteq> ''..'' \<and> CHR ''/'' \<notin> set s" "dsegs \<noteq> []"
    and f: "\<forall>s \<in> set fsegs. s \<noteq> [] \<and> s \<noteq> ''.'' \<and> s \<noteq> ''..'' \<and> CHR ''/'' \<notin> set s"
  shows "relativePath (joinPath [root, join_path dsegs])
           (root @ CHR ''/'' # join_path (dsegs @ fsegs)) = join_path fsegs"
proof -
  have "resolve_segments (root @ CHR ''/'' # join_path (dsegs @ fsegs))
      = resolve_segments root @ dsegs @ fsegs"
    using d f by (intro resolve_segments_append) auto
  moreover have "drop_common (resolve_segments root @ dsegs) (resolve_segments root @ dsegs @ fsegs)
      = ([], fsegs)"
    using drop_common_prefix [of "resolve_segments root @ dsegs" "[]" fsegs] by simp
  ultimately show ?thesis
    using joinPath_segments [OF abs d] by (simp add: relativePath_def)
qed

lemma join_path_append:
  "xs \<noteq> [] \<Longrightarrow> ys \<noteq> [] \<Longrightarrow> join_path (xs @ ys) = join_path xs @ CHR ''/'' # join_path ys"
proof (induction xs rule: join_path.induct)
  case 1
  then show ?case by simp
next
  case (2 s)
  then show ?case by (cases ys) simp_all
next
  case (3 s t ss)
  then show ?case by simp
qed

text \<open>\<open>parse\<close> of a relative path \<open>d/b\<close> whose last segment is \<open>b\<close>.\<close>

lemma parsePath_dir:
  assumes b: "b \<noteq> []" "CHR ''/'' \<notin> set b" and d: "d \<noteq> []"
  shows "parsed_dir (parsePath (d @ CHR ''/'' # b)) = d"
proof -
  from b have lb: "last b \<noteq> CHR ''/''"
    using last_in_set by metis
  with b(1) have strip: "strip_trailing (d @ CHR ''/'' # b) = d @ CHR ''/'' # b"
    by (cases "rev b") (auto simp: strip_trailing_def)
  from b(2) have tw: "takeWhile (\<lambda>c. c \<noteq> CHR ''/'') (rev b @ CHR ''/'' # rev d) = rev b"
    by (subst takeWhile_append2) auto
  then have seg: "last_segment (d @ CHR ''/'' # b) = b"
    by (simp add: last_segment_def)
  show ?thesis
    using d by (simp add: parsePath_def Let_def strip seg)
qed


section \<open>Name derivation\<close>

lemma getRegistryItemName_in_directory:
  assumes abs: "isAbsolute configRootDir"
    and d: "\<forall>s \<in> set dsegs. s \<noteq> [] \<and> s \<noteq> ''.'' \<and> s \<noteq> ''..'' \<and> CHR ''/'' \<notin> set s" "dsegs \<noteq> []"
    and n: "nm \<noteq> []" "nm \<noteq> ''.''" "nm \<noteq> ''..''" "CHR ''/'' \<notin> set nm"
    and b: "b \<noteq> []" "b \<noteq> ''.''" "b \<noteq> ''..''" "CHR ''/'' \<notin> set b"
    and url: "fileURLToPath_URL L (configRootDir @ CHR ''/'' # join_path (dsegs @ [nm, b]))
        = Some (configRootDir @ CHR ''/'' # join_path (dsegs @ [nm, b]))"
  shows "getRegistryItemName L (configRootDir @ CHR ''/'' # join_path (dsegs @ [nm, b]))
           configRootDir (join_path dsegs) = Inr (kebabCase L nm)"
proof -
  have "relativePath (joinPath [configRootDir, join_path dsegs])
      (configRootDir @ CHR ''/'' # join_path (dsegs @ [nm, b])) = join_path [nm, b]"
    using abs d n b by (intro relativePath_inside) auto
  moreover have "parsed_dir (parsePath (nm @ CHR ''/'' # b)) = nm"
    using b n by (intro parsePath_dir) auto
  ultimately show ?thesis
    using url n by (simp add: getRegistryItemName_def getRegistryItemPath_def Let_def
        replace_first_slash_plain)
qed





section \<open>Classifier: the name of a utilities module\<close>

text \<open>
  C6. A module \<open>root/src/utils/b\<close> that only the utilities filter matches is
  classified \<open>registry:lib\<close>, and its name is derived relative to the source
  directory \<open>src\<close>, not relative to the utilities directory: it is the kebab-case of
  the directory name \<open>utils\<close>, whatever the file's base name.
\<close>

theorem lib_name_is_the_directory_name:
  assumes "isAbsolute configRootDir"
    and "b \<noteq> []" and "b \<noteq> ''.''" and "b \<noteq> ''..''" and "CHR ''/'' \<notin> set b"
    and "fileURLToPath_URL L (configRootDir @ ''/src/utils/'' @ b)
        = Some (configRootDir @ ''/src/utils/'' @ b)"
    and "\<not> isShadcnComponent F (configRootDir @ ''/src/utils/'' @ b)"
    and "\<not> isComponent F (configRootDir @ ''/src/utils/'' @ b)"
    and "\<not> isComposable F (configRootDir @ ''/src/utils/'' @ b)"
    and "isUtil F (configRootDir @ ''/src/utils/'' @ b)"
  shows "getShadcnItemMeta L F configRootDir
           \<lparr>resolved_id = configRootDir @ ''/src/utils/'' @ b, external = e\<rparr>
         = Inr \<lparr>meta_name = kebabCase L ''utils'', meta_type = Registry_lib\<rparr>"
proof -
  have i: "configRootDir @ ''/src/utils/'' @ b
      = configRootDir @ CHR ''/'' # join_path ([''src''] @ [''utils'', b])"
    by simp
  have "getRegistryItemName L (configRootDir @ CHR ''/'' # join_path ([''src''] @ [''utils'', b]))
      configRootDir (join_path [''src'']) = Inr (kebabCase L ''utils'')"
    using assms(1-5) assms(6) [unfolded i]
    by (intro getRegistryItemName_in_directory) simp_all
  then have "getRegistryItemName L (configRootDir @ ''/src/utils/'' @ b) configRootDir srcDir
      = Inr (kebabCase L ''utils'')"
    by (simp add: srcDir_def)
  with assms(7-10) show ?thesis
    by (simp add: getShadcnItemMeta_def named_def)
qed

theorem lib_name_is_the_directory_name_witness:
  "isAbsolute ''/proj''
   \<and> \<not> isShadcnComponent (plugin_filters ''/proj'') ''/proj/src/utils/format-date.ts''
   \<and> \<not> isComponent (plugin_filters ''/proj'') ''/proj/src/utils/format-date.ts''
   \<and> \<not> isComposable (plugin_filters ''/proj'') ''/proj/src/utils/format-date.ts''
   \<and> isUtil (plugin_filters ''/proj'') ''/proj/src/utils/format-date.ts''
   \<and> getShadcnItemMeta plain_lib (plugin_filters ''/proj'') ''/proj''
        \<lparr>resolved_id = ''/proj/src/utils/format-date.ts'', external = False\<rparr>
      = Inr \<lparr>meta_name = ''utils'', meta_type = Registry_lib\<rparr>"
proof -
  have abs: "isAbsolute ''/proj''"
    by code_simp
  have f: "\<not> isShadcnComponent (plugin_filters ''/proj'') (''/proj'' @ ''/src/utils/'' @ ''format-date.ts'')"
    "\<not> isComponent (plugin_filters ''/proj'') (''/proj'' @ ''/src/utils/'' @ ''format-date.ts'')"
    "\<not> isComposable (plugin_filters ''/proj'') (''/proj'' @ ''/src/utils/'' @ ''format-date.ts'')"
    "isUtil (plugin_filters ''/proj'') (''/proj'' @ ''/src/utils/'' @ ''format-date.ts'')"
    by code_simp+
  have url: "fileURLToPath_URL plain_lib p = Some p" for p
    by (simp add: plain_lib_def)
  have k: "kebabCase plain_lib ''utils'' = ''utils''"
    by (simp add: plain_lib_def)
  from lib_name_is_the_directory_name
    [of "''/proj''" "''format-date.ts''" plain_lib "plugin_filters ''/proj''" False,
      OF abs _ _ _ _ url f]
  have "getShadcnItemMeta plain_lib (plugin_filters ''/proj'') ''/proj''
        \<lparr>resolved_id = ''/proj'' @ ''/src/utils/'' @ ''format-date.ts'', external = False\<rparr>
      = Inr \<lparr>meta_name = ''utils'', meta_type = Registry_lib\<rparr>"
    by (simp add: k)
  with abs f show ?thesis by simp
qed

end
